theory Spec2Isabelle
  imports Main "HOL-Library.Sublist" "HOL-Library.AList"
begin

section \<open>JavaScript values\<close>

text \<open>
  The extractor of \<^verbatim>\<open>src/core/extractor.ts\<close> works on parsed OpenAPI documents: every
  schema, operation and document is a plain JavaScript value, read through untyped
  property access. The model keeps that: one datatype of values, \<open>undefined\<close> included,
  an object being the list of its own enumerable entries.
  Numbers are only ever tested for truthiness here, so an integer stands for them.
  A document holds data only; the built-in objects that a property read can reach
  through the prototype chain of a value are a type of their own, below.
\<close>

datatype json =
    JUndef
  | JNull
  | JBool bool
  | JNum int
  | JStr string
  | JArr "json list"
  | JObj "(string \<times> json) list"

text \<open>\<open>if (v)\<close>, \<open>!v\<close>, \<open>a || b\<close>, \<open>a && b\<close>: JavaScript truthiness.\<close>

fun truthy :: "json \<Rightarrow> bool" where
  "truthy JUndef = False"
| "truthy JNull = False"
| "truthy (JBool b) = b"
| "truthy (JNum n) = (n \<noteq> 0)"
| "truthy (JStr s) = (s \<noteq> [])"
| "truthy (JArr xs) = True"
| "truthy (JObj kvs) = True"

text \<open>\<open>a ?? b\<close> and \<open>a?.k\<close> test for \<open>null\<close> and \<open>undefined\<close> only.\<close>

fun nullish :: "json \<Rightarrow> bool" where
  "nullish JUndef = True"
| "nullish JNull = True"
| "nullish v = False"

definition coalesce :: "json \<Rightarrow> json \<Rightarrow> json" where
  "coalesce a b = (if nullish a then b else a)"

definition js_or :: "json \<Rightarrow> json \<Rightarrow> json" where
  "js_or a b = (if truthy a then a else b)"

text \<open>
  \<open>v.k\<close> for the fixed property names the extractor reads (\<open>$ref\<close>, \<open>type\<close>, \<open>items\<close>,
  \<open>properties\<close>, ...). None of them is an array index, \<open>length\<close> or the name of a
  property of a built-in prototype, so only an object can have one, as an own property;
  on every other value the read yields \<open>undefined\<close>. The source reads a property of a
  possibly absent value only behind a guard or with \<open>?.\<close>, which yields \<open>undefined\<close> as
  well.
\<close>

fun field :: "string \<Rightarrow> json \<Rightarrow> json" where
  "field k (JObj kvs) = (case map_of kvs k of Some v \<Rightarrow> v | None \<Rightarrow> JUndef)"
| "field k v = JUndef"

text \<open>\<open>s.split(c)\<close> for a one-character separator: never an empty array.\<close>

fun js_split :: "char \<Rightarrow> string \<Rightarrow> string list" where
  "js_split c [] = [[]]"
| "js_split c (x # xs) =
     (if x = c then [] # js_split c xs
      else (case js_split c xs of [] \<Rightarrow> [[x]] | p # ps \<Rightarrow> (x # p) # ps))"

text \<open>The elements a \<open>for ... of\<close> loop guarded by \<open>Array.isArray\<close> runs over.\<close>

definition array_items :: "json \<Rightarrow> json list" where
  "array_items v = (case v of JArr xs \<Rightarrow> xs | _ \<Rightarrow> [])"

section \<open>Name recovery: \<open>extractSchemaName\<close>\<close>

text \<open>\<open>schema.$ref && typeof schema.$ref === 'string'\<close>: a non-empty string.\<close>

definition ref_string :: "json \<Rightarrow> string option" where
  "ref_string schema =
     (case field ''$ref'' schema of
        JStr r \<Rightarrow> if r \<noteq> [] then Some r else None
      | _ \<Rightarrow> None)"

definition composites :: "string list" where
  "composites = [''allOf'', ''anyOf'', ''oneOf'']"

text \<open>
  The two nested loops of rule 2 return the first result that is truthy, that is, a
  non-empty name.
\<close>

fun first_found :: "string option list \<Rightarrow> string option" where
  "first_found [] = None"
| "first_found (None # rs) = first_found rs"
| "first_found (Some n # rs) = (if n \<noteq> [] then Some n else first_found rs)"

lemma size_field: "field k v \<noteq> JUndef \<Longrightarrow> size (field k v) < size v"
proof (cases v)
  case (JObj kvs)
  assume nz: "field k v \<noteq> JUndef"
  with JObj obtain x where x: "map_of kvs k = Some x" "field k v = x"
    by (auto split: option.splits)
  then have "(k, x) \<in> set kvs" by (simp add: map_of_SomeD)
  then have "size x < Suc (size_list (size_prod (\<lambda>_. 0) size) kvs)"
    using size_list_estimation'[of "(k, x)" kvs "size x" "size_prod (\<lambda>_. 0) size"]
    by simp
  with JObj x show ?thesis by simp
qed simp_all

lemma size_array_items: "x \<in> set (array_items (field k v)) \<Longrightarrow> size x < size v"
proof -
  assume a: "x \<in> set (array_items (field k v))"
  then obtain xs where xs: "field k v = JArr xs" "x \<in> set xs"
    by (cases "field k v") (auto simp: array_items_def)
  then have "size x < Suc (size_list size xs)"
    using size_list_estimation'[of x xs "size x" size] by simp
  then have "size x < size (field k v) + 1" using xs by simp
  moreover have "size (field k v) < size v" using xs size_field[of k v] by simp
  ultimately show ?thesis by simp
qed

function extractSchemaName :: "json \<Rightarrow> string option" where
  "extractSchemaName schema =
     (if \<not> truthy schema then None
      else case ref_string schema of
        Some r \<Rightarrow> Some (last (js_split CHR ''/'' r))
      | None \<Rightarrow>
          (case first_found (map extractSchemaName
                   (concat (map (\<lambda>key. array_items (field key schema)) composites))) of
             Some found \<Rightarrow> Some found
           | None \<Rightarrow>
               if field ''type'' schema = JStr ''array'' \<and> truthy (field ''items'' schema)
               then (case extractSchemaName (field ''items'' schema) of
                       Some itemName \<Rightarrow>
                         if itemName \<noteq> []
                         then Some (if suffix ''[]'' itemName then itemName
                                    else itemName @ ''[]'')
                         else None
                     | None \<Rightarrow> None)
               else None))"
  by pat_completeness auto
termination
proof (relation "measure size", goal_cases)
  case 1
  show ?case by simp
next
  case (2 schema x)
  then show ?case by (auto simp: size_array_items)
next
  case (3 schema)
  then have "field ''items'' schema \<noteq> JUndef" by auto
  then show ?case using size_field by simp
qed

declare extractSchemaName.simps [simp del]

section \<open>Outcomes of a call\<close>

text \<open>
  A call of the extractor returns a value, throws a \<open>TypeError\<close> (a method called on a
  value that has none, a spread of a value that is not iterable, a property read on
  \<open>null\<close> or \<open>undefined\<close>), or never returns normally because its recursion does not
  end (a cycle of references; JavaScript then overflows its call stack). The three
  recursive functions that follow references, \<open>resolveRef\<close>, \<open>getEffectiveSchema\<close> and
  \<open>simplifySchema\<close>, take a bound on the depth of their nested calls, the fuel: every
  call hands one unit less to the calls it makes, and \<open>OutOfFuel\<close> says the bound was too
  small.
\<close>

datatype 'a outcome = Returns 'a | TypeError | OutOfFuel

fun obind :: "'a outcome \<Rightarrow> ('a \<Rightarrow> 'b outcome) \<Rightarrow> 'b outcome" where
  "obind (Returns x) f = f x"
| "obind TypeError f = TypeError"
| "obind OutOfFuel f = OutOfFuel"

text \<open>
  A result with less fuel against the result with more: either the smaller amount ran
  out, or the two results are the same.
\<close>

definition settles :: "'a outcome \<Rightarrow> 'a outcome \<Rightarrow> bool" where
  "settles a b = (a = OutOfFuel \<or> a = b)"

section \<open>Computed property access and enumeration\<close>

definition digit_chars :: string where
  "digit_chars = ''0123456789''"

fun string_of_nat :: "nat \<Rightarrow> string" where
  "string_of_nat n =
     (if n < 10 then [digit_chars ! n]
      else string_of_nat (n div 10) @ [digit_chars ! (n mod 10)])"

declare string_of_nat.simps [simp del]

text \<open>
  The own enumerable entries of a value, as \<open>Object.entries\<close>, \<open>Object.keys\<close> and an
  object spread see them: an array and a string have their indices as keys. JavaScript
  enumerates the keys of a plain object that are array indices first, in ascending
  order, and the others after them in the order of their creation; the list of an
  object is its entries in the order of their creation, which is the order of
  enumeration when no key is index-like.
\<close>

definition index_like :: "string \<Rightarrow> bool" where
  "index_like k = (k \<noteq> [] \<and> list_all (\<lambda>c. c \<in> set digit_chars) k)"

fun own_entries :: "json \<Rightarrow> (string \<times> json) list" where
  "own_entries (JObj kvs) = kvs"
| "own_entries (JArr xs) = zip (map string_of_nat [0..<length xs]) xs"
| "own_entries (JStr s) = zip (map string_of_nat [0..<length s]) (map (\<lambda>c. JStr [c]) s)"
| "own_entries v = []"

fun own_length :: "json \<Rightarrow> json" where
  "own_length (JArr xs) = JNum (int (length xs))"
| "own_length (JStr s) = JNum (int (length s))"
| "own_length v = JUndef"

section \<open>Built-in objects and inherited properties\<close>

text \<open>
  A read \<open>v[k]\<close> that finds no own property \<open>k\<close> goes on along the prototype chain of
  \<open>v\<close>. The values of a document are plain data, so their chains are those the language
  gives them: \<open>Object.prototype\<close> for an object; \<open>Array.prototype\<close>, \<open>String.prototype\<close>,
  \<open>Number.prototype\<close> or \<open>Boolean.prototype\<close>, and then \<open>Object.prototype\<close>, for an array,
  a string, a number or a boolean. What such a read finds is a built-in object: one of
  the five prototypes (under the name \<open>__proto__\<close>) or a function that one of them holds.
\<close>

datatype prototype =
    ObjectPrototype
  | ArrayPrototype
  | StringPrototype
  | NumberPrototype
  | BooleanPrototype

text \<open>\<open>Method p k\<close> is the function that the prototype \<open>p\<close> holds under the name \<open>k\<close>.\<close>

datatype builtin = Prototype prototype | Method prototype string

text \<open>What a property read yields: a value of the document, or a built-in object.\<close>

datatype jsvalue = Data json | Builtin builtin

text \<open>
  The names of the function-valued own properties of the five prototypes, as of
  ECMAScript 2024 with its Annex B (what Node.js 20 and later provide). The one other
  string-keyed property of \<open>Object.prototype\<close> is the accessor \<open>__proto__\<close>, and the one
  other of \<open>Array.prototype\<close> and of \<open>String.prototype\<close> is \<open>length\<close>.
\<close>

definition object_methods :: "string list" where
  "object_methods =
     [''constructor'', ''__defineGetter__'', ''__defineSetter__'', ''hasOwnProperty'',
      ''__lookupGetter__'', ''__lookupSetter__'', ''isPrototypeOf'', ''propertyIsEnumerable'',
      ''toString'', ''valueOf'', ''toLocaleString'']"

definition array_methods :: "string list" where
  "array_methods =
     [''constructor'', ''at'', ''concat'', ''copyWithin'', ''fill'', ''find'', ''findIndex'',
      ''findLast'', ''findLastIndex'', ''lastIndexOf'', ''pop'', ''push'', ''reverse'', ''shift'',
      ''unshift'', ''slice'', ''sort'', ''splice'', ''includes'', ''indexOf'', ''join'', ''keys'',
      ''entries'', ''values'', ''forEach'', ''filter'', ''flat'', ''flatMap'', ''map'', ''every'',
      ''some'', ''reduce'', ''reduceRight'', ''toLocaleString'', ''toString'', ''toReversed'',
      ''toSorted'', ''toSpliced'', ''with'']"

definition string_methods :: "string list" where
  "string_methods =
     [''constructor'', ''anchor'', ''at'', ''big'', ''blink'', ''bold'', ''charAt'', ''charCodeAt'',
      ''codePointAt'', ''concat'', ''endsWith'', ''fontcolor'', ''fontsize'', ''fixed'',
      ''includes'', ''indexOf'', ''isWellFormed'', ''italics'', ''lastIndexOf'', ''link'',
      ''localeCompare'', ''match'', ''matchAll'', ''normalize'', ''padEnd'', ''padStart'',
      ''repeat'', ''replace'', ''replaceAll'', ''search'', ''slice'', ''small'', ''split'',
      ''strike'', ''sub'', ''substr'', ''substring'', ''sup'', ''startsWith'', ''toString'',
      ''toWellFormed'', ''trim'', ''trimStart'', ''trimLeft'', ''trimEnd'', ''trimRight'',
      ''toLocaleLowerCase'', ''toLocaleUpperCase'', ''toLowerCase'', ''toUpperCase'', ''valueOf'']"

definition number_methods :: "string list" where
  "number_methods =
     [''constructor'', ''toExponential'', ''toFixed'', ''toPrecision'', ''toString'', ''valueOf'',
      ''toLocaleString'']"

definition boolean_methods :: "string list" where
  "boolean_methods = [''constructor'', ''toString'', ''valueOf'']"

fun method_names :: "prototype \<Rightarrow> string list" where
  "method_names ObjectPrototype = object_methods"
| "method_names ArrayPrototype = array_methods"
| "method_names StringPrototype = string_methods"
| "method_names NumberPrototype = number_methods"
| "method_names BooleanPrototype = boolean_methods"

text \<open>
  \<open>String.prototype\<close> holds one function under \<open>trimLeft\<close> and \<open>trimStart\<close>, and one under
  \<open>trimRight\<close> and \<open>trimEnd\<close>; every other name has a function of its own.
\<close>

definition held_method :: "prototype \<Rightarrow> string \<Rightarrow> builtin" where
  "held_method p k =
     (if p = StringPrototype \<and> k = ''trimLeft'' then Method p ''trimStart''
      else if p = StringPrototype \<and> k = ''trimRight'' then Method p ''trimEnd''
      else Method p k)"

text \<open>The own property \<open>k\<close> of the prototype object \<open>p\<close>, for \<open>k\<close> other than \<open>__proto__\<close>.\<close>

definition prototype_own :: "prototype \<Rightarrow> string \<Rightarrow> jsvalue option" where
  "prototype_own p k =
     (if k = ''length'' \<and> (p = ArrayPrototype \<or> p = StringPrototype) then Some (Data (JNum 0))
      else if k \<in> set (method_names p) then Some (Builtin (held_method p k))
      else None)"

text \<open>
  What the chain that starts at the prototype \<open>p\<close> holds under \<open>k\<close>, for \<open>k\<close> other than
  \<open>__proto__\<close>: the own property of \<open>p\<close>, or else the one of \<open>Object.prototype\<close>, where
  every chain ends.
\<close>

definition prototype_get :: "prototype \<Rightarrow> string \<Rightarrow> jsvalue" where
  "prototype_get p k =
     (case prototype_own p k of
        Some v \<Rightarrow> v
      | None \<Rightarrow> (case prototype_own ObjectPrototype k of Some v \<Rightarrow> v | None \<Rightarrow> Data JUndef))"

text \<open>The prototype of a value of a document; \<open>null\<close> and \<open>undefined\<close> have none.\<close>

fun prototype_of :: "json \<Rightarrow> prototype option" where
  "prototype_of (JObj kvs) = Some ObjectPrototype"
| "prototype_of (JArr xs) = Some ArrayPrototype"
| "prototype_of (JStr s) = Some StringPrototype"
| "prototype_of (JNum n) = Some NumberPrototype"
| "prototype_of (JBool b) = Some BooleanPrototype"
| "prototype_of v = None"

text \<open>
  \<open>v[k]\<close> for a key computed at run time, on a value of a document: the own property
  (an entry, or the \<open>length\<close> of an array or a string), or else what the prototype chain
  of \<open>v\<close> holds; under \<open>__proto__\<close>, the accessor of \<open>Object.prototype\<close>, that is the
  prototype of \<open>v\<close> itself. The source reads \<open>v[k]\<close> of a possibly absent \<open>v\<close> only with
  \<open>?.\<close>, which yields \<open>undefined\<close>.
\<close>

definition get :: "string \<Rightarrow> json \<Rightarrow> jsvalue" where
  "get k v =
     (case map_of (own_entries v) k of
        Some x \<Rightarrow> Data x
      | None \<Rightarrow>
          if k = ''length'' \<and> own_length v \<noteq> JUndef then Data (own_length v)
          else (case prototype_of v of
                  None \<Rightarrow> Data JUndef
                | Some p \<Rightarrow>
                    if k = ''__proto__'' then Builtin (Prototype p) else prototype_get p k))"

text \<open>
  \<open>v[k]\<close> on a value that may be a built-in object. A prototype object is read like the
  chain that starts at it; its own prototype is \<open>Object.prototype\<close>, and that of
  \<open>Object.prototype\<close> is \<open>null\<close>. A built-in function is indexed at one place only,
  \<open>originalResponses?.[statusCode]\<close>, by a status code, a name under which no function
  holds anything (the walk of \<open>resolveRef\<close> indexes objects only).
\<close>

fun vget :: "string \<Rightarrow> jsvalue \<Rightarrow> jsvalue" where
  "vget k (Data v) = get k v"
| "vget k (Builtin (Prototype p)) =
     (if k = ''__proto__''
      then (if p = ObjectPrototype then Data JNull else Builtin (Prototype ObjectPrototype))
      else prototype_get p k)"
| "vget k (Builtin (Method p m)) = Data JUndef"

text \<open>Truthiness of a value that may be a built-in object: every object is truthy.\<close>

fun vtruthy :: "jsvalue \<Rightarrow> bool" where
  "vtruthy (Data v) = truthy v"
| "vtruthy (Builtin b) = True"

text \<open>
  \<open>v.k\<close> on a value that may be a built-in object, for the names the extractor reads
  there: \<open>$ref\<close>, \<open>allOf\<close>, \<open>anyOf\<close>, \<open>oneOf\<close>, \<open>type\<close>, \<open>items\<close>, \<open>properties\<close>, \<open>enum\<close>,
  \<open>required\<close>, \<open>description\<close>, \<open>example\<close>, \<open>content\<close> and \<open>schema\<close>. No built-in prototype
  or function has a property of one of these names.
\<close>

fun vfield :: "string \<Rightarrow> jsvalue \<Rightarrow> json" where
  "vfield k (Data v) = field k v"
| "vfield k (Builtin b) = JUndef"

text \<open>
  \<open>current && typeof current === 'object'\<close>: an object or an array of the document, or
  a prototype; the type of a function is \<open>'function'\<close>.
\<close>

fun is_object :: "jsvalue \<Rightarrow> bool" where
  "is_object (Data (JArr xs)) = True"
| "is_object (Data (JObj kvs)) = True"
| "is_object (Builtin (Prototype p)) = True"
| "is_object v = False"

section \<open>Reference resolution: \<open>resolveRef\<close>\<close>

text \<open>
  The loop over the pointer's segments; \<open>None\<close> is its early \<open>return schema\<close>, taken when
  the value to look the next segment up in is not an object.
\<close>

fun walk :: "string list \<Rightarrow> jsvalue \<Rightarrow> jsvalue option" where
  "walk [] current = Some current"
| "walk (part # parts) current =
     (if is_object current then walk parts (vget part current) else None)"

text \<open>\<open>ref.split('/').slice(1)\<close>: the segments after the leading \<open>#\<close>.\<close>

definition pointer_segments :: "string \<Rightarrow> string list" where
  "pointer_segments ref = tl (js_split CHR ''/'' ref)"

text \<open>
  The node to resolve is a value of the document or, in the recursive call, whatever
  the walk has reached; the document itself is data.
\<close>

primrec resolveRef :: "nat \<Rightarrow> jsvalue \<Rightarrow> json \<Rightarrow> jsvalue outcome" where
  "resolveRef 0 schema spec = OutOfFuel"
| "resolveRef (Suc fuel) schema spec =
     (if \<not> vtruthy schema \<or> \<not> truthy spec then Returns schema
      else case vfield ''$ref'' schema of
        JStr ref \<Rightarrow>
          if \<not> prefix ''#/'' ref then Returns schema
          else (case walk (pointer_segments ref) (Data spec) of
                  None \<Rightarrow> Returns schema
                | Some current \<Rightarrow>
                    if vtruthy current then resolveRef fuel current spec else Returns schema)
      | _ \<Rightarrow> Returns schema)"

text \<open>
  The value one call of \<open>resolveRef\<close> hands to the next: the truthy target of the node's
  in-document reference, if the walk reaches one.
\<close>

definition alias_target :: "jsvalue \<Rightarrow> json \<Rightarrow> jsvalue option" where
  "alias_target schema spec =
     (if \<not> vtruthy schema \<or> \<not> truthy spec then None
      else case vfield ''$ref'' schema of
        JStr ref \<Rightarrow>
          if \<not> prefix ''#/'' ref then None
          else (case walk (pointer_segments ref) (Data spec) of
                  None \<Rightarrow> None
                | Some current \<Rightarrow> if vtruthy current then Some current else None)
      | _ \<Rightarrow> None)"

section \<open>Composition flattening: \<open>getEffectiveSchema\<close>\<close>

text \<open>
  The flattened view \<open>{properties, type, enum, items, required}\<close>. The function returns
  the empty object \<open>{}\<close> for an absent schema; that is \<open>None\<close> here, and reading a field of
  it yields \<open>undefined\<close>.
\<close>

record effective =
  e_properties :: "(string \<times> json) list"
  e_type :: json
  e_enum :: json
  e_items :: json
  e_required :: "json list"

definition eprop :: "(effective \<Rightarrow> json) \<Rightarrow> effective option \<Rightarrow> json" where
  "eprop sel eo = (case eo of None \<Rightarrow> JUndef | Some e \<Rightarrow> sel e)"

text \<open>
  \<open>{...target, ...src}\<close>: the entries of \<open>src\<close> are written into \<open>target\<close> one after the
  other; a key already there keeps its place and takes the new value, a new key goes to
  the end. (As for \<open>own_entries\<close>, the place JavaScript gives to index-like keys when it
  enumerates is not modelled.)
\<close>

definition assign :: "(string \<times> 'a) list \<Rightarrow> (string \<times> 'a) list \<Rightarrow> (string \<times> 'a) list" where
  "assign target src = fold (\<lambda>(k, v). AList.update k v) src target"

text \<open>\<open>[...v]\<close>: arrays and strings are iterable, no other value of a document is.\<close>

fun spread_array :: "json \<Rightarrow> json list outcome" where
  "spread_array (JArr xs) = Returns xs"
| "spread_array (JStr s) = Returns (map (\<lambda>c. JStr [c]) s)"
| "spread_array v = TypeError"

text \<open>
  \<open>Array.from(new Set(xs))\<close>: the first occurrence of each element, in order. (A \<open>Set\<close>
  compares objects by identity; the entries of \<open>required\<close> are property names, strings,
  which it compares by value.)
\<close>

definition set_from :: "'a list \<Rightarrow> 'a list" where
  "set_from xs = fold (\<lambda>x seen. if x \<in> set seen then seen else seen @ [x]) xs []"

text \<open>\<open>resolved.required ? [...resolved.required] : []\<close>.\<close>

definition own_required :: "jsvalue \<Rightarrow> json list outcome" where
  "own_required resolved =
     (if truthy (vfield ''required'' resolved)
      then spread_array (vfield ''required'' resolved) else Returns [])"

text \<open>The entries of \<open>resolved.properties || {}\<close>.\<close>

definition own_properties :: "jsvalue \<Rightarrow> (string \<times> json) list" where
  "own_properties resolved = own_entries (js_or (vfield ''properties'' resolved) (JObj []))"

text \<open>The body of the loop over \<open>allOf\<close>, after the branch has been flattened.\<close>

definition merge_sub :: "effective \<Rightarrow> effective option \<Rightarrow> effective" where
  "merge_sub result subEffective =
     (case subEffective of
        None \<Rightarrow> result
      | Some sub \<Rightarrow>
          \<lparr> e_properties = assign (e_properties result) (e_properties sub),
            e_type = (if \<not> truthy (e_type result) \<and> truthy (e_type sub)
                      then e_type sub else e_type result),
            e_enum = (if \<not> truthy (e_enum result) \<and> truthy (e_enum sub)
                      then e_enum sub else e_enum result),
            e_items = (if \<not> truthy (e_items result) \<and> truthy (e_items sub)
                       then e_items sub else e_items result),
            e_required = set_from (e_required result @ e_required sub) \<rparr>)"

fun mergeAllOf ::
  "(json \<Rightarrow> effective option outcome) \<Rightarrow> json list \<Rightarrow> effective \<Rightarrow> effective outcome" where
  "mergeAllOf f [] result = Returns result"
| "mergeAllOf f (sub # subs) result =
     obind (f sub) (\<lambda>subEffective. mergeAllOf f subs (merge_sub result subEffective))"

text \<open>
  The schema to flatten is a node of the processed document, a branch of an \<open>allOf\<close>,
  or the original counterpart of a node, which may be a built-in object (see
  \<open>original_property\<close> below).
\<close>

primrec getEffectiveSchema :: "nat \<Rightarrow> jsvalue \<Rightarrow> json \<Rightarrow> effective option outcome" where
  "getEffectiveSchema 0 schema spec = OutOfFuel"
| "getEffectiveSchema (Suc fuel) schema spec =
     (if \<not> vtruthy schema then Returns None
      else
        obind (resolveRef fuel schema spec) (\<lambda>resolved.
        obind (own_required resolved) (\<lambda>required.
        obind (mergeAllOf (\<lambda>sub. getEffectiveSchema fuel (Data sub) spec)
                 (array_items (vfield ''allOf'' resolved))
                 \<lparr> e_properties = assign [] (own_properties resolved),
                   e_type = vfield ''type'' resolved,
                   e_enum = vfield ''enum'' resolved,
                   e_items = vfield ''items'' resolved,
                   e_required = required \<rparr>) (\<lambda>result.
        Returns (Some result)))))"

text \<open>
  For stating what the merge yields: the property map a flattened branch contributes
  (none for an absent branch).
\<close>

definition branch_properties :: "effective option \<Rightarrow> (string \<rightharpoonup> json)" where
  "branch_properties e = (case e of None \<Rightarrow> Map.empty | Some s \<Rightarrow> map_of (e_properties s))"

definition distinct_properties :: "effective option \<Rightarrow> bool" where
  "distinct_properties e =
     (case e of None \<Rightarrow> True | Some s \<Rightarrow> distinct (map fst (e_properties s)))"

section \<open>Simplification: \<open>simplifySchema\<close>\<close>

text \<open>
  The interface \<open>SimplifiedSchema\<close>. A field that is absent and a field that holds
  \<open>undefined\<close> are the same here: \<open>None\<close>, or \<open>JUndef\<close> where the field holds a value of
  the document.
\<close>

datatype simplified = Simplified
  (s_type: json)
  (s_schemaName: "string option")
  (s_description: json)
  (s_example: json)
  (s_enum: json)
  (s_required: "json list option")
  (s_properties: "(string \<times> simplified) list option")
  (s_items: "simplified option")

text \<open>\<open>{ type: 'unknown' }\<close>, the result for an absent schema.\<close>

definition unknown_schema :: simplified where
  "unknown_schema = Simplified (JStr ''unknown'') None JUndef JUndef JUndef None None None"

text \<open>\<open>a ?? b\<close> on names: only an absent name gives way, an empty one stays.\<close>

fun orelse :: "'a option \<Rightarrow> 'a option \<Rightarrow> 'a option" where
  "orelse (Some x) b = Some x"
| "orelse None b = b"

text \<open>
  \<open>type.includes('array')\<close>: a substring test on a string, a membership test on an
  array, and a \<open>TypeError\<close> on a value with no such method.
\<close>

fun includes_array :: "json \<Rightarrow> bool outcome" where
  "includes_array (JStr t) = Returns (sublist ''array'' t)"
| "includes_array (JArr xs) = Returns (JStr ''array'' \<in> set xs)"
| "includes_array v = TypeError"

text \<open>
  \<open>effectiveOriginal?.properties?.[key]\<close>. The property map of a flattened view is a
  plain object made by a spread: a key that is not one of its entries is looked up in
  \<open>Object.prototype\<close>, so that the original counterpart of a property named, say,
  \<open>constructor\<close> can be a built-in function.
\<close>

definition original_property :: "effective option \<Rightarrow> string \<Rightarrow> jsvalue" where
  "original_property effectiveOriginal key =
     (case effectiveOriginal of
        None \<Rightarrow> Data JUndef
      | Some eo \<Rightarrow> get key (JObj (e_properties eo)))"

text \<open>
  \<open>extractSchemaName(v)\<close> for a value that may be a built-in object. Such an object is
  truthy, its \<open>$ref\<close> is \<open>undefined\<close>, none of its \<open>allOf\<close>, \<open>anyOf\<close> and \<open>oneOf\<close> is an
  array, and its \<open>type\<close> is not \<open>'array'\<close>: the function runs through its three rules to
  its last line, \<open>return undefined\<close>.
\<close>

fun schema_name :: "jsvalue \<Rightarrow> string option" where
  "schema_name (Data v) = extractSchemaName v"
| "schema_name (Builtin b) = None"

text \<open>
  \<open>o[key] = s\<close> on the plain object \<open>o\<close> with the entries \<open>acc\<close>. Under every name but one
  this writes an own property. The name \<open>__proto__\<close> is the accessor of
  \<open>Object.prototype\<close>: the assignment makes the object \<open>s\<close> the prototype of \<open>o\<close> and
  adds no entry.
\<close>

definition set_property :: "string \<Rightarrow> 'a \<Rightarrow> (string \<times> 'a) list \<Rightarrow> (string \<times> 'a) list" where
  "set_property key s acc = (if key = ''__proto__'' then acc else AList.update key s acc)"

text \<open>
  The loop over \<open>Object.entries(effective.properties)\<close>; \<open>acc\<close> is
  \<open>simplified.properties\<close>, and \<open>simplify\<close> the recursive call.
\<close>

fun simplifyProperties ::
  "(json \<Rightarrow> jsvalue \<Rightarrow> string option \<Rightarrow> simplified outcome) \<Rightarrow> effective option \<Rightarrow>
   (string \<times> json) list \<Rightarrow> (string \<times> simplified) list \<Rightarrow> (string \<times> simplified) list outcome"
where
  "simplifyProperties simplify effectiveOriginal [] acc = Returns acc"
| "simplifyProperties simplify effectiveOriginal ((key, prop) # rest) acc =
     (let originalProp = original_property effectiveOriginal key;
          propName = orelse (schema_name originalProp) (extractSchemaName prop)
      in obind (simplify prop originalProp propName) (\<lambda>s.
           simplifyProperties simplify effectiveOriginal rest (set_property key s acc)))"

text \<open>
  The schema is a node of the processed document; its original counterpart is a node
  of the original document, or what \<open>original_property\<close> has found.
\<close>

primrec simplifySchema ::
  "nat \<Rightarrow> json \<Rightarrow> jsvalue \<Rightarrow> string option \<Rightarrow> json \<Rightarrow> simplified outcome" where
  "simplifySchema 0 schema originalSchema schemaName originalSpec = OutOfFuel"
| "simplifySchema (Suc fuel) schema originalSchema schemaName originalSpec =
     (if \<not> truthy schema then Returns unknown_schema
      else
        let resolvedName = orelse schemaName
                             (orelse (schema_name originalSchema) (extractSchemaName schema));
            description = coalesce (field ''description'' schema)
                                   (vfield ''description'' originalSchema);
            example = coalesce (field ''example'' schema) (vfield ''example'' originalSchema)
        in
        obind (getEffectiveSchema fuel (Data schema) originalSpec) (\<lambda>effective.
        obind (if vtruthy originalSchema
               then getEffectiveSchema fuel originalSchema originalSpec
               else Returns None) (\<lambda>effectiveOriginal.
        let type = js_or (eprop e_type effective)
                         (JStr (if (case effective of None \<Rightarrow> [] | Some e \<Rightarrow> e_properties e) \<noteq> []
                                then ''object'' else ''unknown''))
        in
        obind (case effective of
                 None \<Rightarrow> Returns None
               | Some e \<Rightarrow>
                   obind (simplifyProperties
                            (\<lambda>prop originalProp propName.
                               simplifySchema fuel prop originalProp propName originalSpec)
                            effectiveOriginal (e_properties e) [])
                         (\<lambda>ps. Returns (Some ps))) (\<lambda>properties.
        obind (includes_array type) (\<lambda>isArray.
        if isArray \<and> (truthy (eprop e_items effective) \<or> truthy (field ''items'' schema))
        then
          let items = js_or (eprop e_items effective) (field ''items'' schema);
              originalItems = js_or (eprop e_items effectiveOriginal)
                                    (vfield ''items'' originalSchema);
              itemName = orelse (extractSchemaName originalItems) (extractSchemaName items)
          in obind (simplifySchema fuel items (Data originalItems) itemName originalSpec) (\<lambda>si.
               Returns (Simplified type resolvedName description example
                          (eprop e_enum effective) (map_option e_required effective)
                          properties (Some si)))
        else
          Returns (Simplified type resolvedName description example
                     (eprop e_enum effective) (map_option e_required effective)
                     properties None))))))"

text \<open>
  A simplified node as the plain object it is, for code that reads it back as a schema.
  Reading a key that is absent and reading a key that holds \<open>undefined\<close> give the same
  value, so the entries that hold \<open>undefined\<close> are left out.
\<close>

definition defined_entries :: "(string \<times> json) list \<Rightarrow> (string \<times> json) list" where
  "defined_entries kvs = filter (\<lambda>kv. snd kv \<noteq> JUndef) kvs"

fun to_json :: "simplified \<Rightarrow> json" where
  "to_json (Simplified t n d e en r p i) =
     JObj (defined_entries
       [(''type'', t),
        (''schemaName'', case n of None \<Rightarrow> JUndef | Some s \<Rightarrow> JStr s),
        (''description'', d),
        (''example'', e),
        (''enum'', en),
        (''required'', case r of None \<Rightarrow> JUndef | Some rs \<Rightarrow> JArr rs),
        (''properties'', case p of None \<Rightarrow> JUndef
                          | Some ps \<Rightarrow> JObj (map (\<lambda>(k, s). (k, to_json s)) ps)),
        (''items'', case i of None \<Rightarrow> JUndef | Some s \<Rightarrow> to_json s)])"

section \<open>Shapes of simplified trees\<close>

text \<open>The value \<open>type\<close> of a simplified node, from the flattened view.\<close>

definition type_label :: "effective \<Rightarrow> json" where
  "type_label e = js_or (e_type e) (JStr (if e_properties e \<noteq> [] then ''object'' else ''unknown''))"

text \<open>
  A node carries a properties map and a required array, and beneath it every property
  node does so too or is the bare \<open>{ type: 'unknown' }\<close>, and every item node does.
\<close>

fun populated :: "simplified \<Rightarrow> bool" where
  "populated (Simplified t n d e en r p i) =
     (r \<noteq> None \<and>
      (case p of
         None \<Rightarrow> False
       | Some ps \<Rightarrow> list_all (\<lambda>kv. snd kv = unknown_schema \<or> populated (snd kv)) ps) \<and>
      (case i of None \<Rightarrow> True | Some s \<Rightarrow> populated s))"

text \<open>
  The node \<open>y\<close> against the schema it is simplified from. For an absent schema \<open>y\<close> is
  the bare \<open>{ type: 'unknown' }\<close>. For a present one \<open>y\<close> carries a properties map and a
  required array; the map has a node for every property of the flattened schema and for
  nothing else, each standing in the same way against the schema of its property, and
  the item node, where there is one, against the item schema. (The property named
  \<open>__proto__\<close> has no node, see \<open>set_property\<close>.) The number bounds the depth, as the fuel
  of the call that made \<open>y\<close> does.
\<close>

primrec populated_from :: "nat \<Rightarrow> json \<Rightarrow> json \<Rightarrow> simplified \<Rightarrow> bool" where
  "populated_from 0 spec schema y = False"
| "populated_from (Suc n) spec schema y =
     (if \<not> truthy schema then y = unknown_schema
      else
        s_required y \<noteq> None \<and>
        (case s_properties y of
           None \<Rightarrow> False
         | Some ps \<Rightarrow>
             (case getEffectiveSchema n (Data schema) spec of
                Returns (Some e) \<Rightarrow>
                  (\<forall>kp \<in> set (e_properties e).
                     fst kp \<noteq> ''__proto__'' \<longrightarrow>
                       (case map_of ps (fst kp) of
                          None \<Rightarrow> False
                        | Some s \<Rightarrow> populated_from n spec (snd kp) s))
                  \<and> (\<forall>ks \<in> set ps. fst ks \<in> fst ` set (e_properties e))
                  \<and> (case s_items y of
                        None \<Rightarrow> True
                      | Some si \<Rightarrow>
                          populated_from n spec
                            (js_or (e_items e) (field ''items'' schema)) si)
              | _ \<Rightarrow> False)))"

text \<open>
  What a second simplification of a node makes of it: no names, a \<open>null\<close> description
  or example gone, a properties map and a required array everywhere; the rest as it is.
\<close>

fun resimplified :: "simplified \<Rightarrow> simplified" where
  "resimplified (Simplified t n d e en r p i) =
     Simplified t None (coalesce d JUndef) (coalesce e JUndef) en
       (Some (case r of None \<Rightarrow> [] | Some rs \<Rightarrow> rs))
       (Some (case p of None \<Rightarrow> [] | Some ps \<Rightarrow> map (\<lambda>kv. (fst kv, resimplified (snd kv))) ps))
       (case i of None \<Rightarrow> None | Some s \<Rightarrow> Some (resimplified s))"

text \<open>The depth of a simplified tree, for the fuel a traversal of it takes.\<close>

fun height :: "simplified \<Rightarrow> nat" where
  "height (Simplified t n d e en r p i) =
     Suc (max (case p of None \<Rightarrow> 0 | Some ps \<Rightarrow> fold max (map (\<lambda>kv. height (snd kv)) ps) 0)
              (case i of None \<Rightarrow> 0 | Some s \<Rightarrow> height s))"

text \<open>
  What every result of \<open>simplifySchema\<close> satisfies: a truthy type label that has an
  \<open>includes\<close> method, distinct property keys with no \<open>__proto__\<close> among them, and an item
  node only under a type label that includes \<open>array\<close>.
\<close>

fun well_shaped :: "simplified \<Rightarrow> bool" where
  "well_shaped (Simplified t n d e en r p i) =
     (truthy t \<and>
      (case p of
         None \<Rightarrow> True
       | Some ps \<Rightarrow> distinct (map fst ps) \<and> ''__proto__'' \<notin> set (map fst ps)
                   \<and> list_all (\<lambda>kv. well_shaped (snd kv)) ps) \<and>
      (case i of
         None \<Rightarrow> includes_array t \<noteq> TypeError
       | Some s \<Rightarrow> includes_array t = Returns True \<and> well_shaped s))"

text \<open>The entries of the \<open>properties\<close> object of a simplified node read back as a schema.\<close>

definition json_properties :: "simplified \<Rightarrow> (string \<times> json) list" where
  "json_properties y =
     (case s_properties y of None \<Rightarrow> [] | Some ps \<Rightarrow> map (\<lambda>kv. (fst kv, to_json (snd kv))) ps)"

section \<open>Operation filter of \<open>extractEndpoints\<close>\<close>

text \<open>
  What the loop body of \<open>extractEndpoints\<close> decides for the value found under one HTTP
  method of a path item, before \<open>extractEndpoint\<close> is called: the three \<open>continue\<close>
  statements, in their order. The options are taken after their defaults have been
  applied (\<open>excludeTags = []\<close>, \<open>excludeDeprecated = true\<close>).
\<close>

datatype verdict = NoOperation | SkippedDeprecated | SkippedByTag | Retained

text \<open>
  \<open>tags.some((tag) => excludeTags.includes(tag))\<close>: \<open>includes\<close> finds a tag that is one
  of the strings of \<open>excludeTags\<close>; a \<open>tags\<close> value that is not an array has no \<open>some\<close>.
\<close>

fun some_tag_excluded :: "string list \<Rightarrow> json \<Rightarrow> bool outcome" where
  "some_tag_excluded excludeTags (JArr tags) =
     Returns (list_ex (\<lambda>tag. list_ex (\<lambda>s. tag = JStr s) excludeTags) tags)"
| "some_tag_excluded excludeTags v = TypeError"

definition operation_verdict :: "bool \<Rightarrow> string list \<Rightarrow> json \<Rightarrow> verdict outcome" where
  "operation_verdict excludeDeprecated excludeTags operation =
     (if \<not> truthy operation then Returns NoOperation
      else if excludeDeprecated \<and> truthy (field ''deprecated'' operation)
      then Returns SkippedDeprecated
      else
        obind (some_tag_excluded excludeTags
                 (coalesce (field ''tags'' operation) (JArr [JStr ''default''])))
          (\<lambda>excluded. Returns (if excluded then SkippedByTag else Retained)))"

section \<open>Parameters: \<open>extractAllParameters\<close>\<close>

record ParameterInfo =
  p_name :: json
  p_in :: json
  p_required :: json
  p_type :: json
  p_description :: json
  p_example :: json

text \<open>
  \<open>getSchemaType\<close> builds strings with \<open>JSON.stringify\<close> and with a template literal; the
  two conversions of a value to a string come from the language, and the model takes
  them as the parameters \<open>stringify\<close> and \<open>to_string\<close>.
\<close>

fun join :: "string \<Rightarrow> string list \<Rightarrow> string" where
  "join sep [] = []"
| "join sep [x] = x"
| "join sep (x # y # ys) = x @ sep @ join sep (y # ys)"

function getSchemaType :: "(json \<Rightarrow> string) \<Rightarrow> (json \<Rightarrow> string) \<Rightarrow> json \<Rightarrow> json outcome" where
  "getSchemaType stringify to_string schema =
     (if \<not> truthy schema then Returns (JStr ''unknown'')
      else if field ''type'' schema = JStr ''array'' \<and> truthy (field ''items'' schema)
      then obind (getSchemaType stringify to_string (field ''items'' schema))
             (\<lambda>itemType. Returns (JStr (to_string itemType @ ''[]'')))
      else if truthy (field ''enum'' schema)
      then (case field ''enum'' schema of
              JArr vs \<Rightarrow> Returns (JStr (join '' | '' (map stringify vs)))
            | _ \<Rightarrow> TypeError)
      else Returns (coalesce (field ''type'' schema) (JStr ''object'')))"
  by pat_completeness auto
termination
proof (relation "measure (\<lambda>(stringify, to_string, schema). size schema)", goal_cases)
  case 1
  show ?case by simp
next
  case (2 stringify to_string schema)
  then have "field ''items'' schema \<noteq> JUndef" by auto
  then show ?case using size_field by simp
qed

declare getSchemaType.simps [simp del]

definition extractParameter ::
  "(json \<Rightarrow> string) \<Rightarrow> (json \<Rightarrow> string) \<Rightarrow> json \<Rightarrow> ParameterInfo outcome" where
  "extractParameter stringify to_string param =
     (let schema = field ''schema'' param in
      obind (getSchemaType stringify to_string schema) (\<lambda>type.
        Returns \<lparr> p_name = field ''name'' param,
                  p_in = field ''in'' param,
                  p_required = coalesce (field ''required'' param) (JBool False),
                  p_type = type,
                  p_description = field ''description'' param,
                  p_example = coalesce (field ''example'' param) (field ''example'' schema) \<rparr>))"

text \<open>\<open>xs.map(f)\<close> for an \<open>f\<close> that may throw: the first failure ends the call.\<close>

fun map_outcome :: "('a \<Rightarrow> 'b outcome) \<Rightarrow> 'a list \<Rightarrow> 'b list outcome" where
  "map_outcome f [] = Returns []"
| "map_outcome f (x # xs) =
     obind (f x) (\<lambda>y. obind (map_outcome f xs) (\<lambda>ys. Returns (y # ys)))"

text \<open>
  \<open>ps.find((p) => p.in === 'body')\<close>: the first parameter located in the body,
  \<open>undefined\<close> when there is none; reading \<open>in\<close> of a \<open>null\<close> entry throws.
\<close>

fun find_body :: "json list \<Rightarrow> json outcome" where
  "find_body [] = Returns JUndef"
| "find_body (p # ps) =
     (if nullish p then TypeError
      else if field ''in'' p = JStr ''body'' then Returns p
      else find_body ps)"

definition extractAllParameters ::
  "(json \<Rightarrow> string) \<Rightarrow> (json \<Rightarrow> string) \<Rightarrow> json \<Rightarrow> json \<Rightarrow> (ParameterInfo list \<times> json) outcome"
where
  "extractAllParameters stringify to_string operation pathItem =
     obind (spread_array (coalesce (field ''parameters'' pathItem) (JArr []))) (\<lambda>pathParams.
     obind (spread_array (coalesce (field ''parameters'' operation) (JArr []))) (\<lambda>opParams.
     let allParams = pathParams @ opParams in
     obind (find_body allParams) (\<lambda>bodyParam.
     if list_ex nullish allParams then TypeError
     else
       obind (map_outcome (extractParameter stringify to_string)
                (filter (\<lambda>p. field ''in'' p \<noteq> JStr ''body'') allParams)) (\<lambda>parameters.
       Returns (parameters, bodyParam)))))"

section \<open>Request bodies\<close>

record RequestBodyInfo =
  rb_required :: json
  rb_contentType :: string
  rb_schema :: simplified
  rb_schemaName :: "string option"
  rb_example :: json

text \<open>
  The functions of this section and the next are not recursive; the fuel they take is
  the one they hand to \<open>resolveRef\<close> and \<open>simplifySchema\<close>.
\<close>

definition extractSwagger2BodyParam ::
  "nat \<Rightarrow> json \<Rightarrow> json \<Rightarrow> json \<Rightarrow> RequestBodyInfo option outcome" where
  "extractSwagger2BodyParam fuel bodyParam originalBodyParam originalSpec =
     (let rawSchema = field ''schema'' bodyParam in
      if \<not> truthy rawSchema then Returns None
      else
        let originalSchema = field ''schema'' originalBodyParam;
            schemaName = orelse (extractSchemaName originalSchema) (extractSchemaName rawSchema)
        in obind (simplifySchema fuel rawSchema (Data originalSchema) schemaName originalSpec)
             (\<lambda>schema.
             Returns (Some \<lparr> rb_required = coalesce (field ''required'' bodyParam) (JBool False),
                             rb_contentType = ''application/json'',
                             rb_schema = schema,
                             rb_schemaName = schemaName,
                             rb_example = field ''example'' rawSchema \<rparr>)))"

text \<open>\<open>Object.keys(content)[0]\<close>, \<open>undefined\<close> for an object without keys.\<close>

definition first_key :: "json \<Rightarrow> string option" where
  "first_key content = (case own_entries content of [] \<Rightarrow> None | kv # rest \<Rightarrow> Some (fst kv))"

text \<open>
  \<open>content['application/json'] ? 'application/json' : Object.keys(content)[0]\<close>, \<open>None\<close>
  for \<open>undefined\<close>.
\<close>

definition chosen_content_type :: "json \<Rightarrow> string option" where
  "chosen_content_type content =
     (if truthy (field ''application/json'' content) then Some ''application/json''
      else first_key content)"

text \<open>
  The original body is a node of the original document or what \<open>resolveRef\<close> has made of
  one. The media type found under the chosen content type is read for its \<open>schema\<close> and
  its \<open>example\<close> only.
\<close>

definition extractRequestBody ::
  "nat \<Rightarrow> json \<Rightarrow> jsvalue \<Rightarrow> json \<Rightarrow> RequestBodyInfo option outcome" where
  "extractRequestBody fuel body originalBody originalSpec =
     (let content = field ''content'' body in
      if \<not> truthy content then Returns None
      else
        case chosen_content_type content of
          None \<Rightarrow> Returns None
        | Some contentType \<Rightarrow>
            if contentType = [] then Returns None
            else
              let mediaType = get contentType content;
                  rawSchema = vfield ''schema'' mediaType;
                  originalMediaType = get contentType (vfield ''content'' originalBody);
                  originalSchema = vfield ''schema'' originalMediaType;
                  schemaName = orelse (extractSchemaName originalSchema)
                                      (extractSchemaName rawSchema)
              in obind (simplifySchema fuel rawSchema (Data originalSchema) schemaName
                          originalSpec)
                   (\<lambda>schema.
                     Returns (Some \<lparr> rb_required = coalesce (field ''required'' body) (JBool False),
                                     rb_contentType = contentType,
                                     rb_schema = schema,
                                     rb_schemaName = schemaName,
                                     rb_example = coalesce (vfield ''example'' mediaType)
                                                           (field ''example'' rawSchema) \<rparr>)))"

text \<open>\<open>params?.find((p) => p.in === 'body')\<close> on a value that is an array, or absent.\<close>

definition find_body_param :: "json \<Rightarrow> json outcome" where
  "find_body_param params =
     (if nullish params then Returns JUndef
      else case params of JArr ps \<Rightarrow> find_body ps | _ \<Rightarrow> TypeError)"

text \<open>
  The two statements that look the original operation's body up run before the branch:
  a reference in the original \<open>requestBody\<close> is resolved, and the original body parameter
  searched, whichever dialect the operation uses.
\<close>

definition original_body_nodes :: "nat \<Rightarrow> json \<Rightarrow> json \<Rightarrow> (jsvalue \<times> json) outcome" where
  "original_body_nodes fuel originalOperation originalSpec =
     obind (let originalRequestBody = field ''requestBody'' originalOperation in
            if truthy (field ''$ref'' originalRequestBody)
            then resolveRef fuel (Data originalRequestBody) originalSpec
            else Returns (Data originalRequestBody)) (\<lambda>originalRequestBody.
     obind (find_body_param (field ''parameters'' originalOperation)) (\<lambda>originalBodyParam.
     Returns (originalRequestBody, originalBodyParam)))"

definition extractEndpointRequestBody ::
  "nat \<Rightarrow> json \<Rightarrow> json \<Rightarrow> json \<Rightarrow> json \<Rightarrow> RequestBodyInfo option outcome" where
  "extractEndpointRequestBody fuel operation bodyParam originalOperation originalSpec =
     obind (original_body_nodes fuel originalOperation originalSpec)
       (\<lambda>(originalRequestBody, originalBodyParam).
          if truthy (field ''requestBody'' operation)
          then extractRequestBody fuel (field ''requestBody'' operation)
                 originalRequestBody originalSpec
          else if truthy bodyParam
          then extractSwagger2BodyParam fuel bodyParam originalBodyParam originalSpec
          else Returns None)"

section \<open>Responses\<close>

record ResponseInfo =
  r_statusCode :: string
  r_description :: json
  r_schema :: "simplified option"
  r_schemaName :: "string option"
  r_example :: json

definition importantCodes :: "string list" where
  "importantCodes = [''200'', ''201'', ''204'', ''400'', ''401'', ''403'', ''404'', ''500'']"

text \<open>
  One turn of the loop of \<open>extractResponses\<close>, for one status code: \<open>None\<close> when the
  turn ends at \<open>continue\<close>, the record it pushes otherwise.
\<close>

definition extractResponse ::
  "nat \<Rightarrow> json \<Rightarrow> jsvalue \<Rightarrow> json \<Rightarrow> string \<Rightarrow> ResponseInfo option outcome" where
  "extractResponse fuel responses originalResponses originalSpec code =
     (let response = get code responses in
      if \<not> vtruthy response then Returns None
      else
        let content = field ''application/json'' (vfield ''content'' response);
            rawSchema = coalesce (field ''schema'' content) (vfield ''schema'' response);
            originalResponse = vget code originalResponses;
            originalContent = field ''application/json'' (vfield ''content'' originalResponse);
            originalSchema = coalesce (field ''schema'' originalContent)
                                      (vfield ''schema'' originalResponse);
            schemaName = orelse (extractSchemaName originalSchema) (extractSchemaName rawSchema)
        in
        obind (if truthy rawSchema
               then obind (simplifySchema fuel rawSchema (Data originalSchema) schemaName
                             originalSpec)
                      (\<lambda>s. Returns (Some s))
               else Returns None) (\<lambda>schema.
        Returns (Some \<lparr> r_statusCode = code,
                        r_description = coalesce (vfield ''description'' response) (JStr []),
                        r_schema = schema,
                        r_schemaName = schemaName,
                        r_example = coalesce (field ''example'' content)
                                             (field ''example'' rawSchema) \<rparr>)))"

text \<open>The loop over the codes still to visit; \<open>result\<close> is its array.\<close>

fun extractResponses_loop ::
  "nat \<Rightarrow> json \<Rightarrow> jsvalue \<Rightarrow> json \<Rightarrow> string list \<Rightarrow> ResponseInfo list \<Rightarrow>
   ResponseInfo list outcome"
where
  "extractResponses_loop fuel responses originalResponses originalSpec [] result = Returns result"
| "extractResponses_loop fuel responses originalResponses originalSpec (code # codes) result =
     obind (extractResponse fuel responses originalResponses originalSpec code) (\<lambda>pushed.
       extractResponses_loop fuel responses originalResponses originalSpec codes
         (case pushed of None \<Rightarrow> result | Some info \<Rightarrow> result @ [info]))"

text \<open>\<open>responses[statusCode]\<close> on an operation without \<open>responses\<close> throws.\<close>

definition extractResponses ::
  "nat \<Rightarrow> json \<Rightarrow> jsvalue \<Rightarrow> json \<Rightarrow> ResponseInfo list outcome" where
  "extractResponses fuel responses originalResponses originalSpec =
     (if nullish responses then TypeError
      else extractResponses_loop fuel responses originalResponses originalSpec importantCodes [])"

definition extractEndpointResponses ::
  "nat \<Rightarrow> json \<Rightarrow> json \<Rightarrow> json \<Rightarrow> ResponseInfo list outcome" where
  "extractEndpointResponses fuel operation originalOperation originalSpec =
     obind (let originalResponses = field ''responses'' originalOperation in
            if truthy (field ''$ref'' originalResponses)
            then resolveRef fuel (Data originalResponses) originalSpec
            else Returns (Data originalResponses)) (\<lambda>originalResponses.
     extractResponses fuel (field ''responses'' operation) originalResponses originalSpec)"

section \<open>Example documents\<close>

definition titled_doc :: json where
  "titled_doc =
     JObj [(''info'', JObj [(''title'', JStr ''Petstore'')]),
           (''definitions'',
            JObj [(''Pet'', JObj [(''$ref'', JStr ''#/definitions/Animal'')]),
                  (''Animal'', JObj [(''type'', JStr ''object'')])])]"

definition overriding_node :: json where
  "overriding_node =
     JObj [(''properties'', JObj [(''id'', JObj [(''type'', JStr ''string'')])]),
           (''allOf'', JArr [JObj [(''properties'',
                                    JObj [(''id'', JObj [(''type'', JStr ''integer'')])])]])]"

definition named_schema :: json where
  "named_schema =
     JObj [(''type'', JStr ''object''),
           (''properties'',
            JObj [(''name'', JObj [(''type'', JStr ''string'')]),
                  (''nick'', JNull),
                  (''tags'', JObj [(''type'', JStr ''array''),
                                   (''items'', JObj [(''type'', JStr ''string'')])])])]"

definition plain_string :: simplified where
  "plain_string = Simplified (JStr ''string'') None JUndef JUndef JUndef (Some []) (Some []) None"

definition named_simplified :: simplified where
  "named_simplified =
     Simplified (JStr ''object'') None JUndef JUndef JUndef (Some [])
       (Some [(''name'', plain_string),
              (''nick'', unknown_schema),
              (''tags'', Simplified (JStr ''array'') None JUndef JUndef JUndef (Some []) (Some [])
                           (Some plain_string))])
       None"

definition named_resimplified :: simplified where
  "named_resimplified =
     Simplified (JStr ''object'') None JUndef JUndef JUndef (Some [])
       (Some [(''name'', plain_string),
              (''nick'', Simplified (JStr ''unknown'') None JUndef JUndef JUndef
                           (Some []) (Some []) None),
              (''tags'', Simplified (JStr ''array'') None JUndef JUndef JUndef (Some []) (Some [])
                           (Some plain_string))])
       None"

definition pet_reference :: json where
  "pet_reference = JObj [(''$ref'', JStr ''#/definitions/Pet'')]"

definition pet_simplified :: simplified where
  "pet_simplified =
     Simplified (JStr ''string'') (Some ''Pet'') JUndef JUndef JUndef (Some []) (Some []) None"


text \<open>An operation of the older dialect, processed and original, and one of the newer.\<close>

definition legacy_body_param :: json where
  "legacy_body_param =
     JObj [(''name'', JStr ''pet''), (''in'', JStr ''body''), (''required'', JBool True),
           (''schema'', JObj [(''type'', JStr ''object'')])]"

definition legacy_operation :: json where
  "legacy_operation = JObj [(''parameters'', JArr [legacy_body_param])]"

definition legacy_path_item :: json where
  "legacy_path_item =
     JObj [(''parameters'', JArr [JObj [(''name'', JStr ''id''), (''in'', JStr ''path''),
                                        (''required'', JBool True)]]),
           (''post'', legacy_operation)]"

definition legacy_original_operation :: json where
  "legacy_original_operation =
     JObj [(''parameters'',
            JArr [JObj [(''name'', JStr ''pet''), (''in'', JStr ''body''), (''required'', JBool True),
                        (''schema'', pet_reference)]])]"

definition legacy_original_spec :: json where
  "legacy_original_spec = JObj [(''definitions'', JObj [(''Pet'', JObj [(''type'', JStr ''object'')])])]"

definition legacy_request_body :: RequestBodyInfo where
  "legacy_request_body =
     \<lparr> rb_required = JBool True, rb_contentType = ''application/json'',
       rb_schema = Simplified (JStr ''object'') (Some ''Pet'') JUndef JUndef JUndef
                     (Some []) (Some []) None,
       rb_schemaName = Some ''Pet'', rb_example = JUndef \<rparr>"

text \<open>
  A path item of the older dialect that declares its body parameter at path level, as
  the preprocessor leaves it (the reference replaced by its target) and as the original
  document has it.
\<close>

definition path_level_path_item :: json where
  "path_level_path_item =
     JObj [(''parameters'', JArr [legacy_body_param]),
           (''post'', JObj [(''responses'', JObj [(''200'', JObj [(''description'', JStr ''ok'')])])])]"

definition path_level_original_param :: json where
  "path_level_original_param =
     JObj [(''name'', JStr ''pet''), (''in'', JStr ''body''), (''required'', JBool True),
           (''schema'', pet_reference)]"

definition path_level_original_path_item :: json where
  "path_level_original_path_item =
     JObj [(''parameters'', JArr [path_level_original_param]),
           (''post'', JObj [(''responses'', JObj [(''200'', JObj [(''description'', JStr ''ok'')])])])]"

definition modern_operation :: json where
  "modern_operation =
     JObj [(''requestBody'',
            JObj [(''content'',
                   JObj [(''text/plain'', JObj [(''schema'', JObj [(''type'', JStr ''string'')])]),
                         (''application/json'',
                          JObj [(''schema'', JObj [(''type'', JStr ''object'')])])])]),
           (''parameters'', JArr [legacy_body_param])]"

definition modern_request_body :: RequestBodyInfo where
  "modern_request_body =
     \<lparr> rb_required = JBool False, rb_contentType = ''application/json'',
       rb_schema = Simplified (JStr ''object'') None JUndef JUndef JUndef (Some []) (Some []) None,
       rb_schemaName = None, rb_example = JUndef \<rparr>"

definition xml_operation :: json where
  "xml_operation =
     JObj [(''requestBody'',
            JObj [(''content'',
                   JObj [(''application/xml'', JObj [(''schema'', JObj [(''type'', JStr ''string'')])]),
                         (''text/plain'', JObj [])])])]"

definition xml_request_body :: RequestBodyInfo where
  "xml_request_body =
     \<lparr> rb_required = JBool False, rb_contentType = ''application/xml'',
       rb_schema = plain_string, rb_schemaName = None, rb_example = JUndef \<rparr>"

definition empty_body_operation :: json where
  "empty_body_operation = JObj [(''requestBody'', JObj [(''content'', JObj [])])]"

section \<open>More fuel never changes a result\<close>

text \<open>
  A call that returns or throws with some fuel does the same with any larger amount:
  the fuel decides only whether the recursion is followed to its end.
\<close>

lemma settles_refl: "settles a a"
  by (simp add: settles_def)

lemma settles_obind:
  assumes "settles m m'" and "\<And>x. settles (f x) (f' x)"
  shows "settles (obind m f) (obind m' f')"
proof (cases m)
  case (Returns x)
  with assms(1) have "m' = Returns x" by (simp add: settles_def)
  with Returns assms(2)[of x] show ?thesis by simp
next
  case TypeError
  with assms(1) have "m' = TypeError" by (simp add: settles_def)
  with TypeError show ?thesis by (simp add: settles_def)
next
  case OutOfFuel
  then show ?thesis by (simp add: settles_def)
qed

lemma settles_if:
  "(c \<Longrightarrow> settles a a') \<Longrightarrow> (\<not> c \<Longrightarrow> settles b b') \<Longrightarrow>
   settles (if c then a else b) (if c then a' else b')"
  by simp

lemma settles_case_option:
  "(x = None \<Longrightarrow> settles a a') \<Longrightarrow> (\<And>e. x = Some e \<Longrightarrow> settles (f e) (f' e)) \<Longrightarrow>
   settles (case x of None \<Rightarrow> a | Some e \<Rightarrow> f e) (case x of None \<Rightarrow> a' | Some e \<Rightarrow> f' e)"
  by (cases x) simp_all

lemma resolveRef_Suc:
  "resolveRef (Suc m) schema spec
     = (case alias_target schema spec of
          None \<Rightarrow> Returns schema
        | Some current \<Rightarrow> resolveRef m current spec)"
  by (simp add: alias_target_def split: json.splits option.splits)

lemma resolveRef_settles: "settles (resolveRef n schema spec) (resolveRef (Suc n) schema spec)"
proof (induction n arbitrary: schema)
  case 0
  show ?case by (simp add: settles_def)
next
  case (Suc n)
  show ?case
    unfolding resolveRef_Suc[of "Suc n" schema spec] resolveRef_Suc[of n schema spec]
    by (intro settles_case_option settles_refl Suc)
qed

lemma mergeAllOf_settles:
  "(\<And>sub. settles (f sub) (g sub)) \<Longrightarrow> settles (mergeAllOf f subs init) (mergeAllOf g subs init)"
proof (induction subs arbitrary: init)
  case Nil
  show ?case by (simp add: settles_refl)
next
  case (Cons sub subs)
  show ?case
    by (simp only: mergeAllOf.simps) (intro settles_obind Cons.prems Cons.IH)
qed

lemma getEffectiveSchema_settles:
  "settles (getEffectiveSchema n schema spec) (getEffectiveSchema (Suc n) schema spec)"
proof (induction n arbitrary: schema)
  case 0
  show ?case by (simp add: settles_def)
next
  case (Suc n)
  show ?case
    unfolding getEffectiveSchema.simps(2)[of n schema spec]
              getEffectiveSchema.simps(2)[of "Suc n" schema spec]
    by (intro settles_if settles_refl settles_obind resolveRef_settles mergeAllOf_settles Suc)
qed


lemma simplifyProperties_settles:
  "(\<And>p ov nm. settles (f p ov nm) (g p ov nm)) \<Longrightarrow>
   settles (simplifyProperties f eo props acc) (simplifyProperties g eo props acc)"
proof (induction props arbitrary: acc)
  case Nil
  show ?case by (simp add: settles_refl)
next
  case (Cons a props)
  obtain k0 p0 where a: "a = (k0, p0)" by (cases a)
  show ?case
    unfolding a simplifyProperties.simps Let_def
    by (intro settles_obind Cons.prems Cons.IH)
qed

lemma simplifySchema_settles:
  "settles (simplifySchema n schema orig nm spec) (simplifySchema (Suc n) schema orig nm spec)"
proof (induction n arbitrary: schema orig nm)
  case 0
  show ?case by (simp add: settles_def)
next
  case (Suc n)
  show ?case
    unfolding simplifySchema.simps(2)[of n schema orig nm spec]
              simplifySchema.simps(2)[of "Suc n" schema orig nm spec] Let_def
    by (intro settles_if settles_refl settles_obind settles_case_option
              getEffectiveSchema_settles simplifyProperties_settles Suc)
qed

lemma settles_add:
  assumes "\<And>n. settles (f n) (f (Suc n))"
  shows "f n = r \<Longrightarrow> r \<noteq> OutOfFuel \<Longrightarrow> f (n + k) = r"
proof (induction k)
  case 0
  then show ?case by simp
next
  case (Suc k)
  then have "f (n + k) = r" by simp
  with assms[of "n + k"] Suc.prems(2) show ?case by (simp add: settles_def)
qed

lemma resolveRef_mono:
  "resolveRef n schema spec = r \<Longrightarrow> r \<noteq> OutOfFuel \<Longrightarrow> resolveRef (n + k) schema spec = r"
  by (rule settles_add[of "\<lambda>n. resolveRef n schema spec"]) (rule resolveRef_settles)

lemma getEffectiveSchema_mono:
  "getEffectiveSchema n schema spec = r \<Longrightarrow> r \<noteq> OutOfFuel \<Longrightarrow>
   getEffectiveSchema (n + k) schema spec = r"
  by (rule settles_add[of "\<lambda>n. getEffectiveSchema n schema spec"]) (rule getEffectiveSchema_settles)

lemma simplifySchema_mono:
  "simplifySchema n schema orig nm spec = r \<Longrightarrow> r \<noteq> OutOfFuel \<Longrightarrow>
   simplifySchema (n + k) schema orig nm spec = r"
  by (rule settles_add[of "\<lambda>n. simplifySchema n schema orig nm spec"]) (rule simplifySchema_settles)

section \<open>Properties of name recovery\<close>

lemma js_split_not_Nil: "js_split c s \<noteq> []"
  by (induction s) (auto split: list.splits)

lemma js_split_no_sep: "c \<notin> set s \<Longrightarrow> js_split c s = [s]"
  by (induction s) auto

lemma js_split_append: "js_split c (a @ c # b) = js_split c a @ js_split c b"
proof (induction a)
  case Nil
  show ?case by simp
next
  case (Cons x a)
  then show ?case
    using js_split_not_Nil[of c a] by (cases "js_split c a") auto
qed

lemma last_js_split:
  "c \<notin> set (last (js_split c s)) \<and>
   (s = last (js_split c s) \<or> (\<exists>pre. s = pre @ c # last (js_split c s)))"
proof (cases "c \<in> set s")
  case False
  then show ?thesis by (simp add: js_split_no_sep)
next
  case True
  then obtain pre n where s: "s = pre @ c # n" "c \<notin> set n"
    using split_list_last[of c s] by auto
  then have "last (js_split c s) = n"
    by (simp add: js_split_append js_split_no_sep)
  with s show ?thesis by auto
qed

lemma first_found_None:
  "(\<And>r. r \<in> set rs \<Longrightarrow> r = None \<or> r = Some []) \<Longrightarrow> first_found rs = None"
  by (induction rs rule: first_found.induct) auto

text \<open>
  C5. A schema node whose \<open>$ref\<close> is a (non-empty) string is named by rule 1, whatever
  else the node holds and wherever it sits: the recovered name is the final path segment
  of the reference, the part after its last \<open>/\<close> (the whole reference when it has none).
\<close>

theorem direct_ref_name_is_final_segment:
  assumes "field ''$ref'' schema = JStr r" and "r \<noteq> []"
  shows "\<exists>n. extractSchemaName schema = Some n \<and> CHR ''/'' \<notin> set n \<and>
             (r = n \<or> (\<exists>pre. r = pre @ CHR ''/'' # n))"
proof -
  from assms have t: "truthy schema" by (cases schema) auto
  from assms have "ref_string schema = Some r" by (simp add: ref_string_def)
  with t have "extractSchemaName schema = Some (last (js_split CHR ''/'' r))"
    by (simp add: extractSchemaName.simps)
  then show ?thesis using last_js_split[of "CHR ''/''" r] by simp
qed

theorem direct_ref_name_witness:
  "field ''$ref'' (JObj [(''$ref'', JStr ''#/definitions/Pet'')]) = JStr ''#/definitions/Pet''
   \<and> extractSchemaName (JObj [(''$ref'', JStr ''#/definitions/Pet'')]) = Some ''Pet''"
proof -
  have h: "field ''$ref'' (JObj [(''$ref'', JStr ''#/definitions/Pet'')])
             = JStr ''#/definitions/Pet''"
    by simp
  from direct_ref_name_is_final_segment[OF h]
  obtain n where n: "extractSchemaName (JObj [(''$ref'', JStr ''#/definitions/Pet'')]) = Some n"
    and "''#/definitions/Pet'' = n \<or> (\<exists>pre. ''#/definitions/Pet'' = pre @ CHR ''/'' # n)"
    and "CHR ''/'' \<notin> set n"
    by auto
  have "extractSchemaName (JObj [(''$ref'', JStr ''#/definitions/Pet'')]) = Some ''Pet''"
    by code_simp
  with h show ?thesis by simp
qed

text \<open>
  C6. Rule 3: when neither rule 1 (a direct reference) nor rule 2 (a composition branch
  with a name) applies to a node of type \<open>array\<close>, and its item node has the name \<open>N\<close>,
  the node's name is \<open>N\<close> with the marker \<open>[]\<close> at its end: appended when \<open>N\<close> does not
  end with it, and \<open>N\<close> itself, not marked a second time, when it does.
\<close>

theorem array_name_marked_once:
  assumes "ref_string schema = None"
    and "\<forall>key \<in> set composites. \<forall>item \<in> set (array_items (field key schema)).
           extractSchemaName item = None \<or> extractSchemaName item = Some []"
    and "field ''type'' schema = JStr ''array''"
    and "extractSchemaName (field ''items'' schema) = Some N" and "N \<noteq> []"
  shows "extractSchemaName schema = Some (if suffix ''[]'' N then N else N @ ''[]'')
         \<and> (\<not> suffix ''[]'' N \<longrightarrow> extractSchemaName schema = Some (N @ ''[]''))
         \<and> (suffix ''[]'' N \<longrightarrow> extractSchemaName schema = Some N)
         \<and> (\<exists>n. extractSchemaName schema = Some n \<and> suffix ''[]'' n)"
proof -
  from assms(3) have t: "truthy schema" by (cases schema) auto
  have ti: "truthy (field ''items'' schema)"
  proof (rule ccontr)
    assume "\<not> truthy (field ''items'' schema)"
    then have "extractSchemaName (field ''items'' schema) = None"
      by (simp add: extractSchemaName.simps)
    with assms(4) show False by simp
  qed
  have "first_found (map extractSchemaName
          (concat (map (\<lambda>key. array_items (field key schema)) composites))) = None"
    by (rule first_found_None) (use assms(2) in auto)
  with t ti assms have
    "extractSchemaName schema = Some (if suffix ''[]'' N then N else N @ ''[]'')"
    by (subst extractSchemaName.simps) simp
  then show ?thesis by (auto simp: suffix_def)
qed

theorem array_name_marked_once_witness:
  "extractSchemaName
     (JObj [(''type'', JStr ''array''),
            (''items'', JObj [(''type'', JStr ''array''),
                              (''items'', JObj [(''$ref'', JStr ''#/definitions/Pet'')])])])
   = Some ''Pet[]''
   \<and> extractSchemaName
       (JObj [(''type'', JStr ''array''),
              (''items'', JObj [(''$ref'', JStr ''#/definitions/Pet'')])])
     = Some ''Pet[]''"
proof -
  let ?inner = "JObj [(''type'', JStr ''array''),
                      (''items'', JObj [(''$ref'', JStr ''#/definitions/Pet'')])]"
  let ?outer = "JObj [(''type'', JStr ''array''), (''items'', ?inner)]"
  have h1: "ref_string ?outer = None" by (simp add: ref_string_def)
  have h2: "\<forall>key \<in> set composites. \<forall>item \<in> set (array_items (field key ?outer)).
              extractSchemaName item = None \<or> extractSchemaName item = Some []"
    by (auto simp: composites_def array_items_def)
  have h3: "field ''type'' ?outer = JStr ''array''" by simp
  have inner: "extractSchemaName ?inner = Some ''Pet[]''" by code_simp
  then have h4: "extractSchemaName (field ''items'' ?outer) = Some ''Pet[]''" by simp
  have h5: "''Pet[]'' \<noteq> []" by simp
  from array_name_marked_once[OF h1 h2 h3 h4 h5]
  have "extractSchemaName ?outer = Some (if suffix ''[]'' ''Pet[]'' then ''Pet[]''
                                          else ''Pet[]'' @ ''[]'')"
    by blast
  moreover have "suffix ''[]'' ''Pet[]''" by (simp add: suffix_def)
  ultimately show ?thesis using inner by simp
qed

section \<open>Properties of reference resolution\<close>

lemma walk_Some: "walk parts current = Some x \<Longrightarrow> x = fold vget parts current"
  by (induction parts arbitrary: current) (auto split: if_splits)

lemma walk_None_iff:
  "walk parts current = None \<longleftrightarrow>
     (\<exists>i < length parts. \<not> is_object (fold vget (take i parts) current))"
proof (induction parts arbitrary: current)
  case Nil
  show ?case by simp
next
  case (Cons part parts)
  show ?case
  proof (cases "is_object current")
    case False
    then have "\<not> is_object (fold vget (take 0 (part # parts)) current)" by simp
    then have "\<exists>i < length (part # parts). \<not> is_object (fold vget (take i (part # parts)) current)"
      by (intro exI[of _ 0]) simp
    with False show ?thesis by simp
  next
    case True
    have "(\<exists>i < length (part # parts). \<not> is_object (fold vget (take i (part # parts)) current))
          \<longleftrightarrow> (\<exists>i < length parts. \<not> is_object (fold vget (take i parts) (vget part current)))"
      (is "?L \<longleftrightarrow> ?R")
    proof
      assume ?L
      then obtain i where i: "i < length (part # parts)"
        "\<not> is_object (fold vget (take i (part # parts)) current)" by blast
      with True obtain j where "i = Suc j" by (cases i) auto
      with i show ?R by auto
    next
      assume ?R
      then obtain j where "j < length parts"
        "\<not> is_object (fold vget (take j parts) (vget part current))" by blast
      then show ?L by (intro exI[of _ "Suc j"]) simp
    qed
    with True Cons.IH[of "vget part current"] show ?thesis by simp
  qed
qed

text \<open>
  What a segment finds in an object of the document: the entry of that name; without
  one, the prototype of the object under \<open>__proto__\<close>, the built-in function under a
  name of \<open>Object.prototype\<close>, and \<open>undefined\<close> under any other name.
\<close>

lemma get_object:
  "map_of kvs k = Some v \<Longrightarrow> get k (JObj kvs) = Data v"
  "map_of kvs k = None \<Longrightarrow> k = ''__proto__'' \<Longrightarrow>
     get k (JObj kvs) = Builtin (Prototype ObjectPrototype)"
  "map_of kvs k = None \<Longrightarrow> k \<in> set object_methods \<Longrightarrow>
     get k (JObj kvs) = Builtin (Method ObjectPrototype k)"
  "map_of kvs k = None \<Longrightarrow> k \<noteq> ''__proto__'' \<Longrightarrow> k \<notin> set object_methods \<Longrightarrow>
     get k (JObj kvs) = Data JUndef"
proof -
  show "map_of kvs k = Some v \<Longrightarrow> get k (JObj kvs) = Data v"
    by (simp add: get_def)
  show "map_of kvs k = None \<Longrightarrow> k = ''__proto__'' \<Longrightarrow>
     get k (JObj kvs) = Builtin (Prototype ObjectPrototype)"
    by (simp add: get_def)
  show "map_of kvs k = None \<Longrightarrow> k \<in> set object_methods \<Longrightarrow>
     get k (JObj kvs) = Builtin (Method ObjectPrototype k)"
    by (auto simp: get_def prototype_get_def prototype_own_def held_method_def object_methods_def)
  show "map_of kvs k = None \<Longrightarrow> k \<noteq> ''__proto__'' \<Longrightarrow> k \<notin> set object_methods \<Longrightarrow>
     get k (JObj kvs) = Data JUndef"
    by (simp add: get_def prototype_get_def prototype_own_def)
qed

text \<open>
  C9, as the code has it. For a node whose \<open>$ref\<close> is the string \<open>ref\<close>, with the pointer
  segments \<open>pointer_segments ref\<close> looked up one after the other from the document, each
  as JavaScript reads a property (an own property first, an inherited one otherwise):
  the node itself is returned when \<open>ref\<close> does not start with \<open>#/\<close>, when the document
  is absent, when the document or the value found before the last segment is not an
  object, and when the value found at the last segment is falsy. When the walk ends on
  a truthy value, resolution goes on from that value: a target that is a reference is
  followed, and a target that is not one is the result, an object or not.
\<close>

theorem resolveRef_fallbacks_and_alias:
  assumes "vfield ''$ref'' schema = JStr ref"
  shows "(\<not> prefix ''#/'' ref \<longrightarrow> resolveRef (Suc n) schema spec = Returns schema)
    \<and> (\<not> truthy spec \<longrightarrow> resolveRef (Suc n) schema spec = Returns schema)
    \<and> ((\<exists>i < length (pointer_segments ref).
           \<not> is_object (fold vget (take i (pointer_segments ref)) (Data spec)))
         \<longrightarrow> resolveRef (Suc n) schema spec = Returns schema)
    \<and> (\<not> vtruthy (fold vget (pointer_segments ref) (Data spec))
         \<longrightarrow> resolveRef (Suc n) schema spec = Returns schema)
    \<and> (truthy spec \<and> prefix ''#/'' ref
         \<and> (\<forall>i < length (pointer_segments ref).
               is_object (fold vget (take i (pointer_segments ref)) (Data spec)))
         \<and> vtruthy (fold vget (pointer_segments ref) (Data spec))
         \<longrightarrow> resolveRef (Suc n) schema spec
               = resolveRef n (fold vget (pointer_segments ref) (Data spec)) spec
           \<and> ((\<forall>r. vfield ''$ref'' (fold vget (pointer_segments ref) (Data spec)) \<noteq> JStr r)
                \<longrightarrow> resolveRef (Suc (Suc n)) schema spec
                      = Returns (fold vget (pointer_segments ref) (Data spec))))"
proof -
  let ?parts = "pointer_segments ref"
  let ?target = "fold vget ?parts (Data spec)"
  from assms have ts: "vtruthy schema"
  proof (cases schema)
    case (Data v)
    with assms show ?thesis by (cases v) auto
  next
    case (Builtin b)
    then show ?thesis by simp
  qed
  have a: "\<not> prefix ''#/'' ref \<longrightarrow> resolveRef (Suc n) schema spec = Returns schema"
    using assms by simp
  have b: "\<not> truthy spec \<longrightarrow> resolveRef (Suc n) schema spec = Returns schema"
    by simp
  have c: "(\<exists>i < length ?parts. \<not> is_object (fold vget (take i ?parts) (Data spec)))
         \<longrightarrow> resolveRef (Suc n) schema spec = Returns schema"
  proof
    assume "\<exists>i < length ?parts. \<not> is_object (fold vget (take i ?parts) (Data spec))"
    then have "walk ?parts (Data spec) = None" by (simp only: walk_None_iff)
    then show "resolveRef (Suc n) schema spec = Returns schema"
      using assms by simp
  qed
  have d: "\<not> vtruthy ?target \<longrightarrow> resolveRef (Suc n) schema spec = Returns schema"
  proof
    assume f: "\<not> vtruthy ?target"
    show "resolveRef (Suc n) schema spec = Returns schema"
    proof (cases "walk ?parts (Data spec)")
      case None
      then show ?thesis using assms by simp
    next
      case (Some x)
      then have "x = ?target" by (rule walk_Some)
      with f Some show ?thesis using assms by simp
    qed
  qed
  have e: "truthy spec \<and> prefix ''#/'' ref
         \<and> (\<forall>i < length ?parts. is_object (fold vget (take i ?parts) (Data spec)))
         \<and> vtruthy ?target
         \<longrightarrow> resolveRef (Suc n) schema spec = resolveRef n ?target spec
           \<and> ((\<forall>r. vfield ''$ref'' ?target \<noteq> JStr r)
                \<longrightarrow> resolveRef (Suc (Suc n)) schema spec = Returns ?target)"
  proof (intro impI, elim conjE)
    assume h: "truthy spec" "prefix ''#/'' ref"
      "\<forall>i < length ?parts. is_object (fold vget (take i ?parts) (Data spec))" "vtruthy ?target"
    from h(3) have "walk ?parts (Data spec) \<noteq> None" by (simp only: walk_None_iff) blast
    then obtain x where x: "walk ?parts (Data spec) = Some x" by blast
    then have xt: "x = ?target" by (rule walk_Some)
    have step: "\<And>m. resolveRef (Suc m) schema spec = resolveRef m ?target spec"
      using assms ts h x xt by simp
    have "(\<forall>r. vfield ''$ref'' ?target \<noteq> JStr r)
            \<longrightarrow> resolveRef (Suc n) ?target spec = Returns ?target"
      by (cases "vfield ''$ref'' ?target") (auto simp: h)
    with step[of n] step[of "Suc n"]
    show "resolveRef (Suc n) schema spec = resolveRef n ?target spec
           \<and> ((\<forall>r. vfield ''$ref'' ?target \<noteq> JStr r)
                \<longrightarrow> resolveRef (Suc (Suc n)) schema spec = Returns ?target)"
      by simp
  qed
  from a b c d e show ?thesis by blast
qed

theorem resolveRef_fallbacks_witness:
  "resolveRef (Suc 0) (Data (JObj [(''$ref'', JStr ''Pet.json'')])) titled_doc
     = Returns (Data (JObj [(''$ref'', JStr ''Pet.json'')]))
   \<and> resolveRef (Suc 0) (Data (JObj [(''$ref'', JStr ''#/definitions/Pet'')])) JUndef
     = Returns (Data (JObj [(''$ref'', JStr ''#/definitions/Pet'')]))
   \<and> resolveRef (Suc 0) (Data (JObj [(''$ref'', JStr ''#/info/title/x'')])) titled_doc
     = Returns (Data (JObj [(''$ref'', JStr ''#/info/title/x'')]))
   \<and> resolveRef (Suc 0) (Data (JObj [(''$ref'', JStr ''#/definitions/Dog'')])) titled_doc
     = Returns (Data (JObj [(''$ref'', JStr ''#/definitions/Dog'')]))
   \<and> resolveRef (Suc (Suc (Suc 0))) (Data (JObj [(''$ref'', JStr ''#/definitions/Pet'')]))
         titled_doc
     = Returns (Data (JObj [(''type'', JStr ''object'')]))
   \<and> resolveRef (Suc (Suc 0)) (Data (JObj [(''$ref'', JStr ''#/definitions/constructor'')]))
         titled_doc
     = Returns (Builtin (Method ObjectPrototype ''constructor''))"
proof -
  have f: "\<And>r. vfield ''$ref'' (Data (JObj [(''$ref'', JStr r)])) = JStr r" by simp
  have 1: "\<not> prefix ''#/'' ''Pet.json''" by simp
  have 2: "\<not> truthy JUndef" by simp
  have 3: "\<exists>i < length (pointer_segments ''#/info/title/x'').
             \<not> is_object (fold vget (take i (pointer_segments ''#/info/title/x''))
                              (Data titled_doc))"
  proof (intro exI[of _ 2] conjI)
    show "2 < length (pointer_segments ''#/info/title/x'')" by (simp add: pointer_segments_def)
    show "\<not> is_object (fold vget (take 2 (pointer_segments ''#/info/title/x''))
                          (Data titled_doc))"
      by code_simp
  qed
  have 4: "\<not> vtruthy (fold vget (pointer_segments ''#/definitions/Dog'') (Data titled_doc))"
    by code_simp
  have 5: "resolveRef (Suc (Suc 0)) (Data (JObj [(''$ref'', JStr ''#/definitions/Animal'')]))
             titled_doc
             = Returns (Data (JObj [(''type'', JStr ''object'')]))"
    by code_simp
  have 6: "truthy titled_doc" "prefix ''#/'' ''#/definitions/Pet''"
     "fold vget (pointer_segments ''#/definitions/Pet'') (Data titled_doc)
        = Data (JObj [(''$ref'', JStr ''#/definitions/Animal'')])"
    by code_simp+
  have 7: "\<forall>i < length (pointer_segments ''#/definitions/Pet'').
             is_object (fold vget (take i (pointer_segments ''#/definitions/Pet''))
                          (Data titled_doc))"
  proof (intro allI impI)
    fix i assume "i < length (pointer_segments ''#/definitions/Pet'')"
    then have "i = 0 \<or> i = 1" by (auto simp: pointer_segments_def)
    then show "is_object (fold vget (take i (pointer_segments ''#/definitions/Pet''))
                            (Data titled_doc))"
      by (auto simp: titled_doc_def get_def pointer_segments_def)
  qed
  have 8: "prefix ''#/'' ''#/definitions/constructor''"
     "fold vget (pointer_segments ''#/definitions/constructor'') (Data titled_doc)
        = Builtin (Method ObjectPrototype ''constructor'')"
    by code_simp+
  have 9: "\<forall>i < length (pointer_segments ''#/definitions/constructor'').
             is_object (fold vget (take i (pointer_segments ''#/definitions/constructor''))
                          (Data titled_doc))"
  proof (intro allI impI)
    fix i assume "i < length (pointer_segments ''#/definitions/constructor'')"
    then have "i = 0 \<or> i = 1" by (auto simp: pointer_segments_def)
    then show "is_object (fold vget (take i (pointer_segments ''#/definitions/constructor''))
                            (Data titled_doc))"
      by (auto simp: titled_doc_def get_def pointer_segments_def)
  qed
  have w1: "resolveRef (Suc 0) (Data (JObj [(''$ref'', JStr ''Pet.json'')])) titled_doc
              = Returns (Data (JObj [(''$ref'', JStr ''Pet.json'')]))"
    using resolveRef_fallbacks_and_alias[OF f[of "''Pet.json''"], of 0 titled_doc] 1 by blast
  have w2: "resolveRef (Suc 0) (Data (JObj [(''$ref'', JStr ''#/definitions/Pet'')])) JUndef
              = Returns (Data (JObj [(''$ref'', JStr ''#/definitions/Pet'')]))"
    using resolveRef_fallbacks_and_alias[OF f[of "''#/definitions/Pet''"], of 0 JUndef] 2 by blast
  have w3: "resolveRef (Suc 0) (Data (JObj [(''$ref'', JStr ''#/info/title/x'')])) titled_doc
              = Returns (Data (JObj [(''$ref'', JStr ''#/info/title/x'')]))"
    using resolveRef_fallbacks_and_alias[OF f[of "''#/info/title/x''"], of 0 titled_doc] 3 by blast
  have w4: "resolveRef (Suc 0) (Data (JObj [(''$ref'', JStr ''#/definitions/Dog'')])) titled_doc
              = Returns (Data (JObj [(''$ref'', JStr ''#/definitions/Dog'')]))"
    using resolveRef_fallbacks_and_alias[OF f[of "''#/definitions/Dog''"], of 0 titled_doc] 4 by blast
  have "resolveRef (Suc (Suc (Suc 0))) (Data (JObj [(''$ref'', JStr ''#/definitions/Pet'')]))
          titled_doc
          = resolveRef (Suc (Suc 0))
              (fold vget (pointer_segments ''#/definitions/Pet'') (Data titled_doc)) titled_doc"
    using resolveRef_fallbacks_and_alias[OF f[of "''#/definitions/Pet''"], of "Suc (Suc 0)" titled_doc]
          6(1,2) 7 6(3) by (simp only: vtruthy.simps truthy.simps simp_thms)
  then have w5: "resolveRef (Suc (Suc (Suc 0))) (Data (JObj [(''$ref'', JStr ''#/definitions/Pet'')]))
          titled_doc
          = Returns (Data (JObj [(''type'', JStr ''object'')]))"
    by (simp only: 6(3) 5)
  have nr: "\<forall>r. vfield ''$ref'' (fold vget (pointer_segments ''#/definitions/constructor'')
                                  (Data titled_doc)) \<noteq> JStr r"
    by (simp only: 8(2)) simp
  have vt: "vtruthy (fold vget (pointer_segments ''#/definitions/constructor'') (Data titled_doc))"
    by (simp only: 8(2)) simp
  from resolveRef_fallbacks_and_alias[OF f[of "''#/definitions/constructor''"], of 0 titled_doc]
       6(1) 8(1) 9 vt nr
  have "resolveRef (Suc (Suc 0)) (Data (JObj [(''$ref'', JStr ''#/definitions/constructor'')]))
          titled_doc
          = Returns (fold vget (pointer_segments ''#/definitions/constructor'') (Data titled_doc))"
    by blast
  then have w6: "resolveRef (Suc (Suc 0))
          (Data (JObj [(''$ref'', JStr ''#/definitions/constructor'')])) titled_doc
          = Returns (Builtin (Method ObjectPrototype ''constructor''))"
    by (simp only: 8(2))
  from w1 w2 w3 w4 w5 w6 show ?thesis by blast
qed

text \<open>
  C9 as it is written fails where the last segment is found and holds a truthy value
  that is not an object: the lookup "does not yield an object", yet the result is that
  value and not the reference node.
\<close>

theorem resolveRef_primitive_target_counterexample:
  "resolveRef 2 (Data (JObj [(''$ref'', JStr ''#/info/title'')])) titled_doc
     = Returns (Data (JStr ''Petstore''))
   \<and> fold vget (pointer_segments ''#/info/title'') (Data titled_doc) = Data (JStr ''Petstore'')
   \<and> \<not> is_object (Data (JStr ''Petstore''))"
  by code_simp

section \<open>Properties of composition flattening\<close>

lemma obind_Returns:
  "obind m f = Returns y \<longleftrightarrow> (\<exists>x. m = Returns x \<and> f x = Returns y)"
  by (cases m) auto

lemma map_of_assign:
  "distinct (map fst src) \<Longrightarrow> map_of (assign target src) = map_of target ++ map_of src"
proof (induction src arbitrary: target)
  case Nil
  show ?case by (simp add: assign_def)
next
  case (Cons p src)
  obtain k v where p: "p = (k, v)" by (cases p)
  have d: "distinct (map fst src)" and nk: "k \<notin> dom (map_of src)"
    using Cons.prems p by (simp_all add: dom_map_of_conv_image_fst)
  have "map_of (assign target ((k, v) # src)) = map_of (assign (AList.update k v target) src)"
    by (simp add: assign_def)
  also have "\<dots> = map_of (AList.update k v target) ++ map_of src"
    using Cons.IH[OF d] .
  also have "\<dots> = (map_of target)(k \<mapsto> v) ++ map_of src"
    by (simp only: AList.update_conv')
  also have "\<dots> = (map_of target ++ map_of src)(k \<mapsto> v)"
    using nk by (rule map_add_upd_left)
  also have "\<dots> = map_of target ++ map_of ((k, v) # src)"
    by simp
  finally show ?case by (simp only: p)
qed

lemma distinct_assign:
  "distinct (map fst target) \<Longrightarrow> distinct (map fst (assign target src))"
proof (induction src arbitrary: target)
  case Nil
  then show ?case by (simp add: assign_def)
next
  case (Cons p src)
  obtain k v where p: "p = (k, v)" by (cases p)
  have "assign target (p # src) = assign (AList.update k v target) src"
    by (simp add: assign_def p)
  with Cons show ?case by (simp add: AList.distinct_update)
qed

lemma merge_sub_distinct:
  "distinct (map fst (e_properties result)) \<Longrightarrow>
   distinct (map fst (e_properties (merge_sub result sub)))"
  by (cases sub) (simp_all add: merge_sub_def distinct_assign)

lemma mergeAllOf_distinct:
  "distinct (map fst (e_properties init)) \<Longrightarrow> mergeAllOf f subs init = Returns r \<Longrightarrow>
   distinct (map fst (e_properties r))"
proof (induction subs arbitrary: init)
  case Nil
  then show ?case by simp
next
  case (Cons sub subs)
  from Cons.prems(2) obtain e where "f sub = Returns e"
    "mergeAllOf f subs (merge_sub init e) = Returns r"
    by (auto simp: obind_Returns)
  then show ?case using Cons.IH[of "merge_sub init e"] Cons.prems(1)
    by (simp add: merge_sub_distinct)
qed

lemma getEffectiveSchema_distinct:
  "getEffectiveSchema n schema spec = Returns (Some e) \<Longrightarrow> distinct (map fst (e_properties e))"
proof (cases n)
  case 0
  assume "getEffectiveSchema n schema spec = Returns (Some e)"
  with 0 show ?thesis by simp
next
  case (Suc m)
  assume "getEffectiveSchema n schema spec = Returns (Some e)"
  with Suc obtain resolved required where
    "mergeAllOf (\<lambda>sub. getEffectiveSchema m (Data sub) spec) (array_items (vfield ''allOf'' resolved))
       \<lparr> e_properties = assign [] (own_properties resolved),
         e_type = vfield ''type'' resolved, e_enum = vfield ''enum'' resolved,
         e_items = vfield ''items'' resolved, e_required = required \<rparr> = Returns e"
    by (auto simp: obind_Returns split: if_splits)
  then show ?thesis
    by (rule mergeAllOf_distinct[rotated]) (simp add: distinct_assign)
qed

lemma merge_sub_properties:
  assumes "distinct_properties sub"
  shows "map_of (e_properties (merge_sub result sub))
           = map_of (e_properties result) ++ branch_properties sub"
  using assms
  by (cases sub) (simp_all add: merge_sub_def branch_properties_def distinct_properties_def map_of_assign)

lemma mergeAllOf_properties:
  assumes "list_all2 (\<lambda>sub e. f sub = Returns e) subs es"
    and "list_all distinct_properties es"
  shows "\<exists>r. mergeAllOf f subs init = Returns r \<and>
             map_of (e_properties r)
               = foldl (++) (map_of (e_properties init)) (map branch_properties es)"
  using assms
proof (induction subs es arbitrary: init rule: list_all2_induct)
  case Nil
  show ?case by simp
next
  case (Cons sub subs e es)
  from Cons.prems have de: "distinct_properties e" and des: "list_all distinct_properties es"
    by simp_all
  from Cons.IH[OF des, of "merge_sub init e"] obtain r where
    r: "mergeAllOf f subs (merge_sub init e) = Returns r"
       "map_of (e_properties r)
          = foldl (++) (map_of (e_properties (merge_sub init e))) (map branch_properties es)"
    by blast
  have "mergeAllOf f (sub # subs) init = Returns r"
    using Cons.hyps(1) r(1) by simp
  moreover have "map_of (e_properties r)
      = foldl (++) (map_of (e_properties init)) (map branch_properties (e # es))"
    using r(2) merge_sub_properties[OF de, of init] by simp
  ultimately show ?case by blast
qed

lemma foldl_map_add_none:
  "(\<And>x. x \<in> set ms \<Longrightarrow> x k = None) \<Longrightarrow> foldl (++) m ms k = m k"
proof (induction ms arbitrary: m)
  case Nil
  show ?case by simp
next
  case (Cons a ms)
  have "a k = None" using Cons.prems[of a] by simp
  then have "(m ++ a) k = m k" by (simp add: map_add_def)
  moreover have "foldl (++) (m ++ a) ms k = (m ++ a) k"
    using Cons.prems by (intro Cons.IH) simp
  ultimately show ?case by simp
qed

lemma foldl_map_add_dom:
  "dom (foldl (++) m ms) = dom m \<union> (\<Union>x \<in> set ms. dom x)"
  by (induction ms arbitrary: m) auto

lemma foldl_map_add_last:
  assumes "j < length ms" and "(ms ! j) k = Some v"
    and "\<And>j'. j < j' \<Longrightarrow> j' < length ms \<Longrightarrow> (ms ! j') k = None"
  shows "foldl (++) m ms k = Some v"
proof -
  have ms: "ms = take j ms @ ms ! j # drop (Suc j) ms"
    using assms(1) by (rule id_take_nth_drop)
  have later: "\<And>x. x \<in> set (drop (Suc j) ms) \<Longrightarrow> x k = None"
  proof -
    fix x assume "x \<in> set (drop (Suc j) ms)"
    then obtain i where i: "i < length (drop (Suc j) ms)" "x = drop (Suc j) ms ! i"
      by (auto simp: in_set_conv_nth)
    then have "x = ms ! (Suc j + i)" using assms(1) by simp
    moreover have "Suc j + i < length ms" using i(1) by simp
    ultimately show "x k = None" using assms(3)[of "Suc j + i"] by simp
  qed
  have "foldl (++) m ms = foldl (++) (foldl (++) m (take j ms) ++ (ms ! j)) (drop (Suc j) ms)"
    by (subst ms) simp
  then have "foldl (++) m ms k = (foldl (++) m (take j ms) ++ (ms ! j)) k"
    using foldl_map_add_none[OF later] by simp
  then show ?thesis using assms(2) by (simp add: map_add_def)
qed

text \<open>
  C2, as the code has it. Let \<open>resolved\<close> be the reference-resolved node, with an \<open>allOf\<close>
  array whose branches flatten to \<open>es\<close>. The flattened property map is the union of the
  node's own properties and the branches' property maps, written in that order: on a
  key collision a later branch overrides an earlier one, and every branch overrides the
  node's own property; the own property stays only where no branch has the key.
\<close>

theorem allOf_properties_merge:
  assumes "vtruthy schema"
    and "resolveRef n schema spec = Returns resolved"
    and "own_required resolved = Returns req"
    and "distinct (map fst (own_properties resolved))"
    and "vfield ''allOf'' resolved = JArr subs"
    and "list_all2 (\<lambda>sub e. getEffectiveSchema n (Data sub) spec = Returns e) subs es"
  shows "\<exists>r. getEffectiveSchema (Suc n) schema spec = Returns (Some r)
    \<and> map_of (e_properties r)
        = foldl (++) (map_of (own_properties resolved)) (map branch_properties es)
    \<and> dom (map_of (e_properties r))
        = dom (map_of (own_properties resolved)) \<union> (\<Union>e \<in> set es. dom (branch_properties e))
    \<and> (\<forall>j k v. j < length es \<and> branch_properties (es ! j) k = Some v
           \<and> (\<forall>j'. j < j' \<and> j' < length es \<longrightarrow> branch_properties (es ! j') k = None)
           \<longrightarrow> map_of (e_properties r) k = Some v)
    \<and> (\<forall>k. (\<forall>e \<in> set es. branch_properties e k = None)
           \<longrightarrow> map_of (e_properties r) k = map_of (own_properties resolved) k)"
proof -
  let ?init = "\<lparr> e_properties = assign [] (own_properties resolved),
                 e_type = vfield ''type'' resolved, e_enum = vfield ''enum'' resolved,
                 e_items = vfield ''items'' resolved, e_required = req \<rparr>"
  let ?f = "\<lambda>sub. getEffectiveSchema n (Data sub) spec"
  let ?ms = "map branch_properties es"
  have des: "list_all distinct_properties es"
  proof -
    have "\<And>e. e \<in> set es \<Longrightarrow> distinct_properties e"
    proof -
      fix e assume "e \<in> set es"
      then obtain sub where "getEffectiveSchema n (Data sub) spec = Returns e"
        using assms(6) by (auto simp: list_all2_conv_all_nth in_set_conv_nth)
      then show "distinct_properties e"
        by (cases e) (auto simp: distinct_properties_def dest: getEffectiveSchema_distinct)
    qed
    then show ?thesis by (simp add: list_all_iff)
  qed
  from mergeAllOf_properties[OF assms(6) des, of ?init] obtain r where
    r: "mergeAllOf ?f subs ?init = Returns r"
       "map_of (e_properties r) = foldl (++) (map_of (e_properties ?init)) ?ms"
    by blast
  have own: "map_of (e_properties ?init) = map_of (own_properties resolved)"
    using assms(4) by (simp add: map_of_assign)
  have run: "getEffectiveSchema (Suc n) schema spec = Returns (Some r)"
    using assms(1,2,3,5) r(1) by (simp add: array_items_def)
  have m: "map_of (e_properties r) = foldl (++) (map_of (own_properties resolved)) ?ms"
    using r(2) own by simp
  have d: "dom (map_of (e_properties r))
        = dom (map_of (own_properties resolved)) \<union> (\<Union>e \<in> set es. dom (branch_properties e))"
    by (simp add: m foldl_map_add_dom)
  have l: "\<forall>j k v. j < length es \<and> branch_properties (es ! j) k = Some v
           \<and> (\<forall>j'. j < j' \<and> j' < length es \<longrightarrow> branch_properties (es ! j') k = None)
           \<longrightarrow> map_of (e_properties r) k = Some v"
  proof (intro allI impI, elim conjE)
    fix j k v
    assume h: "j < length es" "branch_properties (es ! j) k = Some v"
      "\<forall>j'. j < j' \<and> j' < length es \<longrightarrow> branch_properties (es ! j') k = None"
    have "foldl (++) (map_of (own_properties resolved)) ?ms k = Some v"
      by (rule foldl_map_add_last[of j]) (use h in auto)
    then show "map_of (e_properties r) k = Some v" by (simp add: m)
  qed
  have o: "\<forall>k. (\<forall>e \<in> set es. branch_properties e k = None)
           \<longrightarrow> map_of (e_properties r) k = map_of (own_properties resolved) k"
  proof (intro allI impI)
    fix k assume "\<forall>e \<in> set es. branch_properties e k = None"
    then have "foldl (++) (map_of (own_properties resolved)) ?ms k
                 = map_of (own_properties resolved) k"
      by (intro foldl_map_add_none) auto
    then show "map_of (e_properties r) k = map_of (own_properties resolved) k" by (simp add: m)
  qed
  from run m d l o show ?thesis by blast
qed


theorem allOf_properties_merge_witness:
  "\<exists>r. getEffectiveSchema (Suc 2) (Data overriding_node) JUndef = Returns (Some r)
       \<and> map_of (e_properties r) ''id'' = Some (JObj [(''type'', JStr ''integer'')])"
proof -
  let ?branch = "JObj [(''properties'', JObj [(''id'', JObj [(''type'', JStr ''integer'')])])]"
  let ?e = "\<lparr> e_properties = [(''id'', JObj [(''type'', JStr ''integer'')])],
              e_type = JUndef, e_enum = JUndef, e_items = JUndef, e_required = [] \<rparr>"
  have h1: "vtruthy (Data overriding_node)" by code_simp
  have h2: "resolveRef 2 (Data overriding_node) JUndef = Returns (Data overriding_node)"
    by code_simp
  have h3: "own_required (Data overriding_node) = Returns []" by code_simp
  have h4: "distinct (map fst (own_properties (Data overriding_node)))" by code_simp
  have h5: "vfield ''allOf'' (Data overriding_node) = JArr [?branch]" by code_simp
  have "getEffectiveSchema 2 (Data ?branch) JUndef = Returns (Some ?e)" by code_simp
  then have h6: "list_all2 (\<lambda>sub e. getEffectiveSchema 2 (Data sub) JUndef = Returns e) [?branch] [Some ?e]"
    by simp
  from allOf_properties_merge[OF h1 h2 h3 h4 h5 h6] obtain r where
    r: "getEffectiveSchema (Suc 2) (Data overriding_node) JUndef = Returns (Some r)"
    and last: "\<forall>j k v. j < length [Some ?e] \<and> branch_properties ([Some ?e] ! j) k = Some v
           \<and> (\<forall>j'. j < j' \<and> j' < length [Some ?e] \<longrightarrow> branch_properties ([Some ?e] ! j') k = None)
           \<longrightarrow> map_of (e_properties r) k = Some v"
    by blast
  have "branch_properties ([Some ?e] ! 0) ''id'' = Some (JObj [(''type'', JStr ''integer'')])"
    by (simp add: branch_properties_def)
  with last have "map_of (e_properties r) ''id'' = Some (JObj [(''type'', JStr ''integer'')])"
    by (auto dest!: spec[of _ 0])
  with r show ?thesis by blast
qed

text \<open>
  C2 as it is written fails on its last clause: the node's own \<open>id\<close> property (a string)
  does not override the branch's (an integer); the branch's is the one in the result.
\<close>

theorem own_property_overridden_counterexample:
  "getEffectiveSchema 3 (Data overriding_node) JUndef
     = Returns (Some \<lparr> e_properties = [(''id'', JObj [(''type'', JStr ''integer'')])],
                       e_type = JUndef, e_enum = JUndef, e_items = JUndef, e_required = [] \<rparr>)
   \<and> field ''id'' (field ''properties'' overriding_node) = JObj [(''type'', JStr ''string'')]"
  by code_simp

section \<open>Properties of simplification\<close>

lemma getEffectiveSchema_truthy:
  "vtruthy schema \<Longrightarrow> getEffectiveSchema n schema spec = Returns e \<Longrightarrow> e \<noteq> None"
  by (cases n) (auto simp: obind_Returns)

lemma set_update_subset: "set (AList.update k v al) \<subseteq> insert (k, v) (set al)"
  by (induction al) auto

lemma set_property_subset: "set (set_property k v al) \<subseteq> insert (k, v) (set al)"
  using set_update_subset[of k v al] by (auto simp: set_property_def)

lemma distinct_set_property:
  "distinct (map fst al) \<Longrightarrow> distinct (map fst (set_property k v al))"
  by (simp add: set_property_def AList.distinct_update)

lemma map_of_set_property:
  "map_of (set_property k v al) = (if k = ''__proto__'' then map_of al else (map_of al)(k \<mapsto> v))"
  by (simp add: set_property_def AList.update_conv')

lemma simplifyProperties_values:
  assumes "simplifyProperties f eo props acc = Returns ps"
    and "\<And>prop op nm s. f prop op nm = Returns s \<Longrightarrow> P s"
    and "\<And>x. x \<in> set acc \<Longrightarrow> P (snd x)"
  shows "\<And>x. x \<in> set ps \<Longrightarrow> P (snd x)"
  using assms(1,3)
proof (induction props arbitrary: acc)
  case Nil
  then show ?case by simp
next
  case (Cons a props)
  obtain k0 p0 where a: "a = (k0, p0)" by (cases a)
  from Cons.prems(2) a obtain s where
    s: "f p0 (original_property eo k0)
          (orelse (schema_name (original_property eo k0)) (extractSchemaName p0)) = Returns s"
    and rest: "simplifyProperties f eo props (set_property k0 s acc) = Returns ps"
    by (auto simp: obind_Returns Let_def)
  have "P s" using s by (rule assms(2))
  then have "\<And>y. y \<in> set (set_property k0 s acc) \<Longrightarrow> P (snd y)"
    using Cons.prems(3) set_property_subset[of k0 s acc] by auto
  from Cons.IH[OF _ rest this] Cons.prems(1) show ?case by blast
qed

lemma simplifyProperties_distinct:
  assumes "simplifyProperties f eo props acc = Returns ps" and "distinct (map fst acc)"
  shows "distinct (map fst ps)"
  using assms
proof (induction props arbitrary: acc)
  case Nil
  then show ?case by simp
next
  case (Cons a props)
  obtain k0 p0 where a: "a = (k0, p0)" by (cases a)
  from Cons.prems(1) a obtain s where
    rest: "simplifyProperties f eo props (set_property k0 s acc) = Returns ps"
    by (auto simp: obind_Returns Let_def)
  show ?case
    by (rule Cons.IH[OF rest]) (simp add: distinct_set_property Cons.prems(2))
qed

lemma simplifySchema_Returns:
  assumes "simplifySchema (Suc n) schema orig nm spec = Returns y" and "truthy schema"
  obtains e eo ps b i where
    "getEffectiveSchema n (Data schema) spec = Returns (Some e)"
    "(if vtruthy orig then getEffectiveSchema n orig spec else Returns None) = Returns eo"
    "simplifyProperties (\<lambda>prop op pn. simplifySchema n prop op pn spec) eo (e_properties e) []
       = Returns ps"
    "includes_array (type_label e) = Returns b"
    "if b \<and> (truthy (e_items e) \<or> truthy (field ''items'' schema))
     then \<exists>si. i = Some si \<and>
            simplifySchema n (js_or (e_items e) (field ''items'' schema))
              (Data (js_or (eprop e_items eo) (vfield ''items'' orig)))
              (orelse (extractSchemaName (js_or (eprop e_items eo) (vfield ''items'' orig)))
                      (extractSchemaName (js_or (e_items e) (field ''items'' schema))))
              spec = Returns si
     else i = None"
    "y = Simplified (type_label e)
           (orelse nm (orelse (schema_name orig) (extractSchemaName schema)))
           (coalesce (field ''description'' schema) (vfield ''description'' orig))
           (coalesce (field ''example'' schema) (vfield ''example'' orig))
           (e_enum e) (Some (e_required e)) (Some ps) i"
proof -
  from assms obtain eff where eff: "getEffectiveSchema n (Data schema) spec = Returns eff"
    by (auto simp: obind_Returns Let_def)
  from assms(2) have "vtruthy (Data schema)" by simp
  from getEffectiveSchema_truthy[OF this eff] obtain e where e: "eff = Some e"
    by (cases eff) auto
  from assms eff e obtain eo ps b where
    eo: "(if vtruthy orig then getEffectiveSchema n orig spec else Returns None) = Returns eo"
    and ps: "simplifyProperties (\<lambda>prop op pn. simplifySchema n prop op pn spec) eo (e_properties e) []
       = Returns ps"
    and b: "includes_array (type_label e) = Returns b"
    by (auto simp: obind_Returns Let_def eprop_def type_label_def split: if_splits)
  show thesis
  proof (cases "b \<and> (truthy (e_items e) \<or> truthy (field ''items'' schema))")
    case True
    with assms eff e eo ps b obtain si where
      "simplifySchema n (js_or (e_items e) (field ''items'' schema))
              (Data (js_or (eprop e_items eo) (vfield ''items'' orig)))
              (orelse (extractSchemaName (js_or (eprop e_items eo) (vfield ''items'' orig)))
                      (extractSchemaName (js_or (e_items e) (field ''items'' schema))))
              spec = Returns si"
      "y = Simplified (type_label e)
           (orelse nm (orelse (schema_name orig) (extractSchemaName schema)))
           (coalesce (field ''description'' schema) (vfield ''description'' orig))
           (coalesce (field ''example'' schema) (vfield ''example'' orig))
           (e_enum e) (Some (e_required e)) (Some ps) (Some si)"
      by (auto simp: obind_Returns Let_def eprop_def type_label_def split: if_splits)
    with True eff e eo ps b show ?thesis by (intro that[of e eo ps b "Some si"]) auto
  next
    case False
    with assms eff e eo ps b have
      "y = Simplified (type_label e)
           (orelse nm (orelse (schema_name orig) (extractSchemaName schema)))
           (coalesce (field ''description'' schema) (vfield ''description'' orig))
           (coalesce (field ''example'' schema) (vfield ''example'' orig))
           (e_enum e) (Some (e_required e)) (Some ps) None"
      by (auto simp: obind_Returns Let_def eprop_def type_label_def split: if_splits)
    with False eff e eo ps b show ?thesis by (intro that[of e eo ps b None]) auto
  qed
qed


lemma populated_fields: "populated y \<Longrightarrow> s_properties y \<noteq> None \<and> s_required y \<noteq> None"
  by (cases y) (auto split: option.splits)

lemma simplifySchema_populated:
  "simplifySchema n schema orig nm spec = Returns y \<Longrightarrow>
   (if truthy schema then populated y else y = unknown_schema)"
proof (induction n arbitrary: schema orig nm y)
  case 0
  then show ?case by simp
next
  case (Suc n)
  show ?case
  proof (cases "truthy schema")
    case False
    with Suc.prems show ?thesis by simp
  next
    case True
    from Suc.prems True obtain e eo ps b i where
      ps: "simplifyProperties (\<lambda>prop op pn. simplifySchema n prop op pn spec) eo (e_properties e) []
             = Returns ps"
      and i: "if b \<and> (truthy (e_items e) \<or> truthy (field ''items'' schema))
     then \<exists>si. i = Some si \<and>
            simplifySchema n (js_or (e_items e) (field ''items'' schema))
              (Data (js_or (eprop e_items eo) (vfield ''items'' orig)))
              (orelse (extractSchemaName (js_or (eprop e_items eo) (vfield ''items'' orig)))
                      (extractSchemaName (js_or (e_items e) (field ''items'' schema))))
              spec = Returns si
     else i = None"
      and y: "y = Simplified (type_label e)
           (orelse nm (orelse (schema_name orig) (extractSchemaName schema)))
           (coalesce (field ''description'' schema) (vfield ''description'' orig))
           (coalesce (field ''example'' schema) (vfield ''example'' orig))
           (e_enum e) (Some (e_required e)) (Some ps) i"
      by (rule simplifySchema_Returns)
    have props: "\<And>x. x \<in> set ps \<Longrightarrow> snd x = unknown_schema \<or> populated (snd x)"
    proof (rule simplifyProperties_values[OF ps])
      fix pv ov nm' s
      assume "simplifySchema n pv ov nm' spec = Returns s"
      from Suc.IH[OF this] show "s = unknown_schema \<or> populated s"
        by (auto split: if_splits)
    qed simp
    have items: "case i of None \<Rightarrow> True | Some s \<Rightarrow> populated s"
    proof (cases i)
      case None
      then show ?thesis by simp
    next
      case (Some si)
      with i have c: "truthy (e_items e) \<or> truthy (field ''items'' schema)"
        and r: "simplifySchema n (js_or (e_items e) (field ''items'' schema))
              (Data (js_or (eprop e_items eo) (vfield ''items'' orig)))
              (orelse (extractSchemaName (js_or (eprop e_items eo) (vfield ''items'' orig)))
                      (extractSchemaName (js_or (e_items e) (field ''items'' schema))))
              spec = Returns si"
        by (auto split: if_splits)
      from c have "truthy (js_or (e_items e) (field ''items'' schema))"
        by (auto simp: js_or_def)
      with Suc.IH[OF r] Some show ?thesis by simp
    qed
    from props items y True show ?thesis by (simp add: list_all_iff)
  qed
qed

lemma simplifyProperties_keys:
  "simplifyProperties f eo props acc = Returns ps \<Longrightarrow>
   fst ` set ps \<subseteq> fst ` set acc \<union> fst ` set props"
proof (induction props arbitrary: acc)
  case Nil
  then show ?case by simp
next
  case (Cons a props)
  obtain k0 p0 where a: "a = (k0, p0)" by (cases a)
  from Cons.prems a obtain s where
    rest: "simplifyProperties f eo props (set_property k0 s acc) = Returns ps"
    by (auto simp: obind_Returns Let_def)
  have "fst ` set (set_property k0 s acc) \<subseteq> insert k0 (fst ` set acc)"
    using set_property_subset[of k0 s acc] by auto
  with Cons.IH[OF rest] show ?case by (auto simp: a)
qed

text \<open>
  The loop gives every property but \<open>__proto__\<close> the node its own recursive call has
  returned: the keys of a flattened schema are distinct, so no later turn writes it again.
\<close>

lemma simplifyProperties_nodes:
  assumes "simplifyProperties f eo props acc = Returns ps" and "distinct (map fst props)"
  shows "(\<forall>k. k \<notin> fst ` set props \<longrightarrow> map_of ps k = map_of acc k)
    \<and> (\<forall>kp \<in> set props. fst kp \<noteq> ''__proto__'' \<longrightarrow>
          (\<exists>s ov nm. map_of ps (fst kp) = Some s \<and> f (snd kp) ov nm = Returns s))"
  using assms
proof (induction props arbitrary: acc)
  case Nil
  then show ?case by simp
next
  case (Cons a props)
  obtain k0 p0 where a: "a = (k0, p0)" by (cases a)
  from Cons.prems(1) a obtain s ov nm where
    s: "f p0 ov nm = Returns s"
    and rest: "simplifyProperties f eo props (set_property k0 s acc) = Returns ps"
    by (auto simp: obind_Returns Let_def)
  from Cons.prems(2) a have d: "distinct (map fst props)" and k0: "k0 \<notin> fst ` set props"
    by auto
  note IH = Cons.IH[OF rest d]
  have outside: "\<forall>k. k \<notin> fst ` set (a # props) \<longrightarrow> map_of ps k = map_of acc k"
  proof (intro allI impI)
    fix k assume "k \<notin> fst ` set (a # props)"
    then have "k \<noteq> k0" "k \<notin> fst ` set props" by (auto simp: a)
    with IH show "map_of ps k = map_of acc k" by (simp add: map_of_set_property)
  qed
  have inside: "\<forall>kp \<in> set (a # props). fst kp \<noteq> ''__proto__'' \<longrightarrow>
          (\<exists>s ov nm. map_of ps (fst kp) = Some s \<and> f (snd kp) ov nm = Returns s)"
  proof (intro ballI impI)
    fix kp assume kp: "kp \<in> set (a # props)" "fst kp \<noteq> ''__proto__''"
    show "\<exists>s ov nm. map_of ps (fst kp) = Some s \<and> f (snd kp) ov nm = Returns s"
    proof (cases "kp = a")
      case True
      with kp(2) a have "map_of (set_property k0 s acc) k0 = Some s"
        by (simp add: map_of_set_property)
      with IH k0 have "map_of ps k0 = Some s" by simp
      with s True a show ?thesis by auto
    next
      case False
      with kp(1) have "kp \<in> set props" by simp
      with IH kp(2) show ?thesis by blast
    qed
  qed
  from outside inside show ?case by blast
qed

lemma simplifySchema_populated_from:
  "simplifySchema n schema orig nm spec = Returns y \<Longrightarrow> populated_from n spec schema y"
proof (induction n arbitrary: schema orig nm y)
  case 0
  then show ?case by simp
next
  case (Suc n)
  show ?case
  proof (cases "truthy schema")
    case False
    with Suc.prems show ?thesis by simp
  next
    case True
    from Suc.prems True obtain e eo ps b i where
      e: "getEffectiveSchema n (Data schema) spec = Returns (Some e)"
      and ps: "simplifyProperties (\<lambda>prop op pn. simplifySchema n prop op pn spec) eo (e_properties e) []
             = Returns ps"
      and i: "if b \<and> (truthy (e_items e) \<or> truthy (field ''items'' schema))
     then \<exists>si. i = Some si \<and>
            simplifySchema n (js_or (e_items e) (field ''items'' schema))
              (Data (js_or (eprop e_items eo) (vfield ''items'' orig)))
              (orelse (extractSchemaName (js_or (eprop e_items eo) (vfield ''items'' orig)))
                      (extractSchemaName (js_or (e_items e) (field ''items'' schema))))
              spec = Returns si
     else i = None"
      and y: "y = Simplified (type_label e)
           (orelse nm (orelse (schema_name orig) (extractSchemaName schema)))
           (coalesce (field ''description'' schema) (vfield ''description'' orig))
           (coalesce (field ''example'' schema) (vfield ''example'' orig))
           (e_enum e) (Some (e_required e)) (Some ps) i"
      by (rule simplifySchema_Returns)
    have d: "distinct (map fst (e_properties e))"
      using e by (rule getEffectiveSchema_distinct)
    note nodes = simplifyProperties_nodes[OF ps d]
    have props: "\<forall>kp \<in> set (e_properties e). fst kp \<noteq> ''__proto__'' \<longrightarrow>
        (case map_of ps (fst kp) of None \<Rightarrow> False
         | Some s \<Rightarrow> populated_from n spec (snd kp) s)"
    proof (intro ballI impI)
      fix kp assume "kp \<in> set (e_properties e)" "fst kp \<noteq> ''__proto__''"
      with nodes obtain s ov nm' where
        s: "map_of ps (fst kp) = Some s" "simplifySchema n (snd kp) ov nm' spec = Returns s"
        by blast
      from Suc.IH[OF s(2)] s(1)
      show "case map_of ps (fst kp) of None \<Rightarrow> False
            | Some s \<Rightarrow> populated_from n spec (snd kp) s"
        by simp
    qed
    have keys: "\<forall>ks \<in> set ps. fst ks \<in> fst ` set (e_properties e)"
      using simplifyProperties_keys[OF ps] by auto
    have items: "case i of None \<Rightarrow> True
                 | Some si \<Rightarrow> populated_from n spec (js_or (e_items e) (field ''items'' schema)) si"
    proof (cases i)
      case None
      then show ?thesis by simp
    next
      case (Some si)
      with i have
        "simplifySchema n (js_or (e_items e) (field ''items'' schema))
              (Data (js_or (eprop e_items eo) (vfield ''items'' orig)))
              (orelse (extractSchemaName (js_or (eprop e_items eo) (vfield ''items'' orig)))
                      (extractSchemaName (js_or (e_items e) (field ''items'' schema))))
              spec = Returns si"
        by (auto split: if_splits)
      from Suc.IH[OF this] Some show ?thesis by simp
    qed
    from True e props keys items show ?thesis by (simp add: y)
  qed
qed

text \<open>
  C10. The node simplified from a present (truthy) schema carries a properties map and a
  required array, whatever the schema declares. So does, at every depth, the node of
  each property whose schema is present and each item node; the node of a property
  whose schema is absent is the bare \<open>{ type: 'unknown' }\<close>, and only such a node lacks
  the two fields: that is \<open>populated_from\<close>, which holds of every call that returns. The
  node simplified from an absent schema is that bare node, with neither field.
\<close>

theorem simplified_nodes_populated:
  assumes "simplifySchema n schema orig nm spec = Returns y"
  shows "populated_from n spec schema y
       \<and> (truthy schema \<longrightarrow> s_properties y \<noteq> None \<and> s_required y \<noteq> None \<and> populated y)
       \<and> (\<not> truthy schema \<longrightarrow> y = unknown_schema \<and> s_properties y = None \<and> s_required y = None)"
  using simplifySchema_populated_from[OF assms] simplifySchema_populated[OF assms]
        populated_fields[of y]
  by (auto simp: unknown_schema_def)

theorem simplified_nodes_populated_witness:
  "simplifySchema 5 named_schema (Data JUndef) None JUndef = Returns named_simplified
   \<and> populated_from 5 JUndef named_schema named_simplified
   \<and> s_properties named_simplified \<noteq> None \<and> s_required named_simplified \<noteq> None
   \<and> populated named_simplified
   \<and> simplifySchema 1 JNull (Data JUndef) None JUndef = Returns unknown_schema
   \<and> s_properties unknown_schema = None \<and> s_required unknown_schema = None"
proof -
  have a: "simplifySchema 5 named_schema (Data JUndef) None JUndef = Returns named_simplified"
    by code_simp
  have b: "simplifySchema 1 JNull (Data JUndef) None JUndef = Returns unknown_schema"
    by code_simp
  have t: "truthy named_schema" "\<not> truthy JNull" by code_simp+
  from simplified_nodes_populated[OF a] simplified_nodes_populated[OF b] t a b
  show ?thesis by blast
qed

text \<open>
  \<open>populated_from\<close> tells the nodes apart by their sources: in the tree of the example
  the property \<open>nick\<close>, whose schema is \<open>null\<close>, has the bare node, and the tree that gives
  the bare node to the property \<open>name\<close> as well, whose schema is present, is not one that
  \<open>simplifySchema\<close> can return for the example.
\<close>

lemma populated_from_tells_sources:
  "populated_from 5 JUndef named_schema named_simplified
   \<and> \<not> populated_from 5 JUndef named_schema
         (Simplified (JStr ''object'') None JUndef JUndef JUndef (Some [])
            (Some [(''name'', unknown_schema), (''nick'', unknown_schema),
                   (''tags'', Simplified (JStr ''array'') None JUndef JUndef JUndef (Some [])
                                (Some []) (Some plain_string))])
            None)"
  by code_simp

section \<open>Properties of a second simplification\<close>

lemma field_defined_entries:
  "distinct (map fst kvs) \<Longrightarrow> field k (JObj (defined_entries kvs)) = field k (JObj kvs)"
proof (induction kvs)
  case Nil
  show ?case by (simp add: defined_entries_def)
next
  case (Cons a kvs)
  obtain k' v where a: "a = (k', v)" by (cases a)
  have notin: "k = k' \<Longrightarrow> map_of (filter (\<lambda>kv. snd kv \<noteq> JUndef) kvs) k = None"
  proof -
    assume "k = k'"
    then have "k \<notin> fst ` set kvs" using Cons.prems a by auto
    then have "k \<notin> fst ` set (filter (\<lambda>kv. snd kv \<noteq> JUndef) kvs)" by auto
    then show ?thesis by (simp add: map_of_eq_None_iff)
  qed
  from Cons a notin show ?case
    by (auto simp: defined_entries_def)
qed

lemma to_json_fields:
  "field ''type'' (to_json y) = s_type y"
  "field ''description'' (to_json y) = s_description y"
  "field ''example'' (to_json y) = s_example y"
  "field ''enum'' (to_json y) = s_enum y"
  "field ''required'' (to_json y) = (case s_required y of None \<Rightarrow> JUndef | Some rs \<Rightarrow> JArr rs)"
  "field ''properties'' (to_json y)
     = (case s_properties y of None \<Rightarrow> JUndef
        | Some ps \<Rightarrow> JObj (map (\<lambda>(k, s). (k, to_json s)) ps))"
  "field ''items'' (to_json y) = (case s_items y of None \<Rightarrow> JUndef | Some s \<Rightarrow> to_json s)"
  "field ''$ref'' (to_json y) = JUndef"
  "field ''allOf'' (to_json y) = JUndef"
  "field ''anyOf'' (to_json y) = JUndef"
  "field ''oneOf'' (to_json y) = JUndef"
  by (cases y; simp add: field_defined_entries del: field.simps; simp)+

lemma truthy_to_json: "truthy (to_json y)"
  by (cases y) simp


lemma height_property: "(k, s) \<in> set ps \<Longrightarrow> height s \<le> fold max (map (\<lambda>kv. height (snd kv)) ps) m"
proof (induction ps arbitrary: m)
  case Nil
  then show ?case by simp
next
  case (Cons a ps)
  have mono: "\<And>xs (a::nat) b. a \<le> b \<Longrightarrow> fold max xs a \<le> fold max xs b"
  proof -
    fix xs and a b :: nat
    show "a \<le> b \<Longrightarrow> fold max xs a \<le> fold max xs b"
      by (induction xs arbitrary: a b) auto
  qed
  have ge: "\<And>xs (a::nat). a \<le> fold max xs a"
  proof -
    fix xs and a :: nat
    show "a \<le> fold max xs a"
    proof (induction xs arbitrary: a)
      case Nil show ?case by simp
    next
      case (Cons x xs)
      have "a \<le> max x a" by simp
      also have "\<dots> \<le> fold max xs (max x a)" by (rule Cons.IH)
      finally show ?case by simp
    qed
  qed
  show ?case
  proof (cases "(k, s) = a")
    case True
    then have "height s \<le> max (height (snd a)) m" by auto
    also have "\<dots> \<le> fold max (map (\<lambda>kv. height (snd kv)) ps) (max (height (snd a)) m)"
      by (rule ge)
    finally show ?thesis by simp
  next
    case False
    with Cons.prems have "(k, s) \<in> set ps" by simp
    from Cons.IH[OF this, of "max (height (snd a)) m"] show ?thesis by simp
  qed
qed

lemma height_nested:
  "s_properties y = Some ps \<Longrightarrow> (k, s) \<in> set ps \<Longrightarrow> height s < height y"
  "s_items y = Some si \<Longrightarrow> height si < height y"
  using height_property[of k s _ 0] by (cases y; fastforce simp: less_Suc_eq_le max_def)+

lemma extractSchemaName_falsy: "\<not> truthy v \<Longrightarrow> extractSchemaName v = None"
  by (simp add: extractSchemaName.simps)

lemma extractSchemaName_to_json: "extractSchemaName (to_json y) = None"
proof (induction "height y" arbitrary: y rule: less_induct)
  case less
  have items: "extractSchemaName (case s_items y of None \<Rightarrow> JUndef | Some s \<Rightarrow> to_json s) = None"
  proof (cases "s_items y")
    case None
    then show ?thesis by (simp add: extractSchemaName_falsy)
  next
    case (Some si)
    then have "height si < height y" by (rule height_nested)
    then have "extractSchemaName (to_json si) = None" by (rule less)
    with Some show ?thesis by simp
  qed
  show ?case
    by (subst extractSchemaName.simps)
       (simp add: truthy_to_json ref_string_def to_json_fields composites_def array_items_def items
             del: to_json.simps)
qed

lemma update_append: "k \<notin> fst ` set acc \<Longrightarrow> AList.update k v acc = acc @ [(k, v)]"
  by (induction acc) auto

lemma fold_update_append:
  "distinct (map fst acc @ map fst xs) \<Longrightarrow>
   fold (\<lambda>kv. AList.update (fst kv) (g (snd kv))) xs acc = acc @ map (\<lambda>kv. (fst kv, g (snd kv))) xs"
proof (induction xs arbitrary: acc)
  case Nil
  show ?case by simp
next
  case (Cons a xs)
  have "fst a \<notin> fst ` set acc" using Cons.prems by auto
  then have u: "AList.update (fst a) (g (snd a)) acc = acc @ [(fst a, g (snd a))]"
    by (rule update_append)
  have "distinct (map fst (acc @ [(fst a, g (snd a))]) @ map fst xs)"
    using Cons.prems by auto
  from Cons.IH[OF this] u show ?case by simp
qed

lemma assign_Nil: "distinct (map fst xs) \<Longrightarrow> assign [] xs = xs"
proof -
  assume d: "distinct (map fst xs)"
  have "assign [] xs = fold (\<lambda>kv. AList.update (fst kv) (id (snd kv))) xs []"
    by (simp add: assign_def split_def)
  also have "\<dots> = [] @ map (\<lambda>kv. (fst kv, id (snd kv))) xs"
    by (rule fold_update_append) (simp add: d)
  finally show ?thesis by simp
qed

lemma own_properties_to_json: "own_properties (Data (to_json y)) = json_properties y"
  by (cases "s_properties y")
     (simp_all add: own_properties_def to_json_fields js_or_def json_properties_def case_prod_beta
               del: to_json.simps)

lemma getEffectiveSchema_to_json:
  assumes "distinct (map fst (json_properties y))"
  shows "getEffectiveSchema (Suc (Suc m)) (Data (to_json y)) spec
     = Returns (Some \<lparr> e_properties = json_properties y,
                       e_type = s_type y, e_enum = s_enum y,
                       e_items = (case s_items y of None \<Rightarrow> JUndef | Some s \<Rightarrow> to_json s),
                       e_required = (case s_required y of None \<Rightarrow> [] | Some rs \<Rightarrow> rs) \<rparr>)"
proof -
  have r: "resolveRef (Suc m) (Data (to_json y)) spec = Returns (Data (to_json y))"
    by (simp add: to_json_fields del: to_json.simps)
  have q: "own_required (Data (to_json y)) = Returns (case s_required y of None \<Rightarrow> [] | Some rs \<Rightarrow> rs)"
    by (cases "s_required y") (simp_all add: own_required_def to_json_fields del: to_json.simps)
  show ?thesis
    using assms
    by (simp add: r q truthy_to_json to_json_fields array_items_def own_properties_to_json
                  assign_Nil
             del: to_json.simps resolveRef.simps)
qed


lemma simplifyProperties_to_json:
  assumes "\<And>kv. kv \<in> set ps \<Longrightarrow> f (to_json (snd kv)) (Data JUndef) None = Returns (g (snd kv))"
    and "''__proto__'' \<notin> fst ` set ps"
  shows "simplifyProperties f None (map (\<lambda>kv. (fst kv, to_json (snd kv))) ps) acc
           = Returns (fold (\<lambda>kv. AList.update (fst kv) (g (snd kv))) ps acc)"
  using assms
proof (induction ps arbitrary: acc)
  case Nil
  show ?case by simp
next
  case (Cons a ps)
  have a: "f (to_json (snd a)) (Data JUndef) None = Returns (g (snd a))"
    by (rule Cons.prems) simp
  have np: "fst a \<noteq> ''__proto__''" "''__proto__'' \<notin> fst ` set ps"
    using Cons.prems(2) by auto
  have rest: "simplifyProperties f None (map (\<lambda>kv. (fst kv, to_json (snd kv))) ps)
                (AList.update (fst a) (g (snd a)) acc)
           = Returns (fold (\<lambda>kv. AList.update (fst kv) (g (snd kv))) ps
                        (AList.update (fst a) (g (snd a)) acc))"
    by (rule Cons.IH) (simp_all add: Cons.prems(1) np)
  show ?case
    by (simp add: original_property_def extractSchemaName_falsy extractSchemaName_to_json a rest
                  set_property_def np
             del: to_json.simps)
qed

lemma simplifyProperties_no_proto:
  "simplifyProperties f eo props acc = Returns ps \<Longrightarrow> ''__proto__'' \<notin> fst ` set acc \<Longrightarrow>
   ''__proto__'' \<notin> fst ` set ps"
proof (induction props arbitrary: acc)
  case Nil
  then show ?case by simp
next
  case (Cons a props)
  obtain k0 p0 where a: "a = (k0, p0)" by (cases a)
  from Cons.prems(1) a obtain s where
    rest: "simplifyProperties f eo props (set_property k0 s acc) = Returns ps"
    by (auto simp: obind_Returns Let_def)
  have "''__proto__'' \<notin> fst ` set (set_property k0 s acc)"
  proof (cases "k0 = ''__proto__''")
    case True
    with Cons.prems(2) show ?thesis by (simp add: set_property_def)
  next
    case False
    have "fst ` set (set_property k0 s acc) \<subseteq> insert k0 (fst ` set acc)"
      using set_property_subset[of k0 s acc] by auto
    with False Cons.prems(2) show ?thesis by auto
  qed
  with rest show ?case by (rule Cons.IH)
qed

lemma includes_array_Returns: "includes_array t \<noteq> TypeError \<Longrightarrow> \<exists>b. includes_array t = Returns b"
  by (cases t) auto

lemma second_pass:
  "well_shaped y \<Longrightarrow> height y + 2 \<le> n \<Longrightarrow>
   simplifySchema n (to_json y) (Data JUndef) None spec = Returns (resimplified y)"
proof (induction n arbitrary: y)
  case 0
  then show ?case by simp
next
  case (Suc m)
  obtain t nm d e en r p i where y: "y = Simplified t nm d e en r p i" by (cases y)
  have hy: "0 < height y" by (simp add: y)
  with Suc.prems(2) have "\<exists>m'. m = Suc (Suc m')" by presburger
  then obtain m' where m: "m = Suc (Suc m')" by blast
  let ?ps = "case p of None \<Rightarrow> [] | Some ps \<Rightarrow> ps"
  have jp: "json_properties y = map (\<lambda>kv. (fst kv, to_json (snd kv))) ?ps"
    by (cases p) (simp_all add: json_properties_def y)
  have dps: "distinct (map fst ?ps)"
    using Suc.prems(1) by (cases p) (simp_all add: y)
  then have dj: "distinct (map fst (json_properties y))"
    by (simp add: jp comp_def)
  have nps: "''__proto__'' \<notin> fst ` set ?ps"
    using Suc.prems(1) by (cases p) (simp_all add: y)
  have nested: "\<And>kv. kv \<in> set ?ps \<Longrightarrow>
      simplifySchema m (to_json (snd kv)) (Data JUndef) None spec = Returns (resimplified (snd kv))"
  proof -
    fix kv assume kv: "kv \<in> set ?ps"
    then obtain ps where p: "p = Some ps" "kv \<in> set ps" by (cases p) auto
    then have w: "well_shaped (snd kv)" using Suc.prems(1) by (auto simp: y list_all_iff)
    have "height (snd kv) < height y"
      using height_nested(1)[of y ps "fst kv" "snd kv"] p by (simp add: y)
    with Suc.prems(2) have "height (snd kv) + 2 \<le> m" by simp
    with w show "simplifySchema m (to_json (snd kv)) (Data JUndef) None spec
                   = Returns (resimplified (snd kv))"
      by (rule Suc.IH)
  qed
  have loop: "simplifyProperties (\<lambda>prop originalProp propName.
                  simplifySchema m prop originalProp propName spec) None (json_properties y) []
        = Returns (map (\<lambda>kv. (fst kv, resimplified (snd kv))) ?ps)"
  proof -
    have "simplifyProperties (\<lambda>prop originalProp propName.
                  simplifySchema m prop originalProp propName spec) None
             (map (\<lambda>kv. (fst kv, to_json (snd kv))) ?ps) []
        = Returns (fold (\<lambda>kv. AList.update (fst kv) (resimplified (snd kv))) ?ps [])"
      using nested nps by (rule simplifyProperties_to_json)
    moreover have "fold (\<lambda>kv. AList.update (fst kv) (resimplified (snd kv))) ?ps []
        = [] @ map (\<lambda>kv. (fst kv, resimplified (snd kv))) ?ps"
      by (rule fold_update_append) (simp add: dps)
    ultimately show ?thesis by (simp add: jp)
  qed
  have eff: "getEffectiveSchema m (Data (to_json y)) spec
     = Returns (Some \<lparr> e_properties = json_properties y,
                       e_type = t, e_enum = en,
                       e_items = (case i of None \<Rightarrow> JUndef | Some s \<Rightarrow> to_json s),
                       e_required = (case r of None \<Rightarrow> [] | Some rs \<Rightarrow> rs) \<rparr>)"
    using getEffectiveSchema_to_json[OF dj, of m' spec] by (simp add: m y del: to_json.simps)
  have tt: "truthy t" using Suc.prems(1) by (simp add: y)
  have res: "resimplified y
      = Simplified t None (coalesce d JUndef) (coalesce e JUndef) en
          (Some (case r of None \<Rightarrow> [] | Some rs \<Rightarrow> rs))
          (Some (map (\<lambda>kv. (fst kv, resimplified (snd kv))) ?ps))
          (case i of None \<Rightarrow> None | Some s \<Rightarrow> Some (resimplified s))"
    by (cases p) (simp_all add: y)
  have fields: "field ''description'' (to_json y) = d" "field ''example'' (to_json y) = e"
    "field ''items'' (to_json y) = (case i of None \<Rightarrow> JUndef | Some s \<Rightarrow> to_json s)"
    by (simp_all add: to_json_fields y del: to_json.simps)
  show ?case
  proof (cases i)
    case None
    with Suc.prems(1) obtain b where b: "includes_array t = Returns b"
      using includes_array_Returns[of t] by (auto simp: y)
    show ?thesis
      unfolding res
      by (simp add: truthy_to_json Let_def extractSchemaName_falsy extractSchemaName_to_json
                    eff loop fields eprop_def js_or_def tt b None
               del: to_json.simps)
  next
    case (Some si)
    with Suc.prems(1) have b: "includes_array t = Returns True" and w: "well_shaped si"
      by (simp_all add: y)
    have "height si < height y" using height_nested(2)[of y si] Some by (simp add: y)
    with Suc.prems(2) have "height si + 2 \<le> m" by simp
    with w have it: "simplifySchema m (to_json si) (Data JUndef) None spec = Returns (resimplified si)"
      by (rule Suc.IH)
    show ?thesis
      unfolding res
      by (simp add: truthy_to_json Let_def extractSchemaName_falsy extractSchemaName_to_json
                    eff loop fields eprop_def js_or_def tt b Some it
               del: to_json.simps)
  qed
qed


lemma truthy_type_label: "truthy (type_label e)"
  by (simp add: type_label_def js_or_def)

lemma well_shaped_unknown: "well_shaped unknown_schema"
  by (simp add: unknown_schema_def)

lemma simplifySchema_well_shaped:
  "simplifySchema n schema orig nm spec = Returns y \<Longrightarrow> well_shaped y"
proof (induction n arbitrary: schema orig nm y)
  case 0
  then show ?case by simp
next
  case (Suc n)
  show ?case
  proof (cases "truthy schema")
    case False
    with Suc.prems show ?thesis by (simp add: well_shaped_unknown)
  next
    case True
    from Suc.prems True obtain e eo ps b i where
      ps: "simplifyProperties (\<lambda>prop op pn. simplifySchema n prop op pn spec) eo (e_properties e) []
             = Returns ps"
      and b: "includes_array (type_label e) = Returns b"
      and i: "if b \<and> (truthy (e_items e) \<or> truthy (field ''items'' schema))
     then \<exists>si. i = Some si \<and>
            simplifySchema n (js_or (e_items e) (field ''items'' schema))
              (Data (js_or (eprop e_items eo) (vfield ''items'' orig)))
              (orelse (extractSchemaName (js_or (eprop e_items eo) (vfield ''items'' orig)))
                      (extractSchemaName (js_or (e_items e) (field ''items'' schema))))
              spec = Returns si
     else i = None"
      and y: "y = Simplified (type_label e)
           (orelse nm (orelse (schema_name orig) (extractSchemaName schema)))
           (coalesce (field ''description'' schema) (vfield ''description'' orig))
           (coalesce (field ''example'' schema) (vfield ''example'' orig))
           (e_enum e) (Some (e_required e)) (Some ps) i"
      by (rule simplifySchema_Returns)
    have d: "distinct (map fst ps)"
      by (rule simplifyProperties_distinct[OF ps]) simp
    have np: "''__proto__'' \<notin> set (map fst ps)"
      using simplifyProperties_no_proto[OF ps] by simp
    have props: "\<And>x. x \<in> set ps \<Longrightarrow> well_shaped (snd x)"
    proof (rule simplifyProperties_values[OF ps])
      fix pv ov nm' s
      assume "simplifySchema n pv ov nm' spec = Returns s"
      then show "well_shaped s" by (rule Suc.IH)
    qed simp
    have items: "case i of None \<Rightarrow> includes_array (type_label e) \<noteq> TypeError
                 | Some s \<Rightarrow> includes_array (type_label e) = Returns True \<and> well_shaped s"
    proof (cases i)
      case None
      with b show ?thesis by simp
    next
      case (Some si)
      with i have "b" and
        "simplifySchema n (js_or (e_items e) (field ''items'' schema))
              (Data (js_or (eprop e_items eo) (vfield ''items'' orig)))
              (orelse (extractSchemaName (js_or (eprop e_items eo) (vfield ''items'' orig)))
                      (extractSchemaName (js_or (e_items e) (field ''items'' schema))))
              spec = Returns si"
        by (auto split: if_splits)
      with Suc.IH[of _ _ _ si] b Some show ?thesis by simp
    qed
    from d np props items show ?thesis by (simp add: y truthy_type_label list_all_iff)
  qed
qed

lemma resimplified_idem: "resimplified (resimplified y) = resimplified y"
proof (induction "height y" arbitrary: y rule: less_induct)
  case less
  obtain t nm d e en r p i where y: "y = Simplified t nm d e en r p i" by (cases y)
  have p: "\<And>ps kv. p = Some ps \<Longrightarrow> kv \<in> set ps \<Longrightarrow>
             resimplified (resimplified (snd kv)) = resimplified (snd kv)"
    using height_nested(1)[of y _ _ _] less by (simp add: y) (metis prod.collapse)
  have i: "\<And>si. i = Some si \<Longrightarrow> resimplified (resimplified si) = resimplified si"
    using height_nested(2)[of y] less by (simp add: y)
  show ?case
    by (cases p; cases i) (simp_all add: y coalesce_def p i)
qed

lemma well_shaped_resimplified: "well_shaped y \<Longrightarrow> well_shaped (resimplified y)"
proof (induction "height y" arbitrary: y rule: less_induct)
  case less
  obtain t nm d e en r p i where y: "y = Simplified t nm d e en r p i" by (cases y)
  have p: "\<And>ps kv. p = Some ps \<Longrightarrow> kv \<in> set ps \<Longrightarrow> well_shaped (resimplified (snd kv))"
  proof -
    fix ps kv assume h: "p = Some ps" "kv \<in> set ps"
    then have "height (snd kv) < height y"
      using height_nested(1)[of y ps "fst kv" "snd kv"] by (simp add: y)
    moreover have "well_shaped (snd kv)" using less.prems h by (simp add: y list_all_iff)
    ultimately show "well_shaped (resimplified (snd kv))" by (rule less.hyps)
  qed
  have i: "\<And>si. i = Some si \<Longrightarrow> well_shaped (resimplified si)"
  proof -
    fix si assume h: "i = Some si"
    then have "height si < height y" using height_nested(2)[of y si] by (simp add: y)
    moreover have "well_shaped si" using less.prems h by (simp add: y)
    ultimately show "well_shaped (resimplified si)" by (rule less.hyps)
  qed
  show ?case
    using less.prems
    by (cases p; cases i) (auto simp: y p i list_all_iff comp_def)
qed

lemma fold_max_cong:
  "(\<And>x. x \<in> set xs \<Longrightarrow> f x = g x) \<Longrightarrow> fold max (map f xs) (m::nat) = fold max (map g xs) m"
  by (induction xs arbitrary: m) simp_all

lemma height_resimplified: "height (resimplified y) = height y"
proof (induction "height y" arbitrary: y rule: less_induct)
  case less
  obtain t nm d e en r p i where y: "y = Simplified t nm d e en r p i" by (cases y)
  have p: "\<And>ps kv. p = Some ps \<Longrightarrow> kv \<in> set ps \<Longrightarrow>
             height (resimplified (snd kv)) = height (snd kv)"
    using height_nested(1)[of y _ _ _] less by (simp add: y) (metis prod.collapse)
  have i: "\<And>si. i = Some si \<Longrightarrow> height (resimplified si) = height si"
    using height_nested(2)[of y] less by (simp add: y)
  have "\<And>ps. p = Some ps \<Longrightarrow>
          fold max (map (\<lambda>kv. height (resimplified (snd kv))) ps) 0
            = fold max (map (\<lambda>kv. height (snd kv)) ps) 0"
    by (rule fold_max_cong) (simp add: p)
  then show ?case
    by (cases p; cases i) (simp_all add: y i comp_def)
qed

text \<open>
  C4, as the code has it. Simplifying a simplified node again, as a fresh schema with no
  original counterpart and no pre-resolved name, returns (with enough fuel for the
  tree's depth) the node with every recovered name dropped, a \<open>null\<close> description or
  example dropped, and the bare \<open>{ type: 'unknown' }\<close> nodes given an empty properties
  map and an empty required array: \<open>resimplified y\<close>. So the second tree is identical to
  the first exactly when that changes nothing; and simplifying once more changes nothing.
\<close>

theorem second_simplification:
  assumes "simplifySchema n schema orig nm spec = Returns y"
  shows "(\<forall>m \<ge> height y + 2.
            simplifySchema m (to_json y) (Data JUndef) None spec' = Returns (resimplified y)
          \<and> (simplifySchema m (to_json y) (Data JUndef) None spec' = Returns y) = (resimplified y = y)
          \<and> simplifySchema m (to_json (resimplified y)) (Data JUndef) None spec'
              = Returns (resimplified y))"
proof (intro allI impI)
  fix m assume m: "height y + 2 \<le> m"
  have w: "well_shaped y" using assms by (rule simplifySchema_well_shaped)
  from w m have 1: "simplifySchema m (to_json y) (Data JUndef) None spec' = Returns (resimplified y)"
    by (rule second_pass)
  have "simplifySchema m (to_json (resimplified y)) (Data JUndef) None spec'
          = Returns (resimplified (resimplified y))"
  proof (rule second_pass)
    show "well_shaped (resimplified y)" using w by (rule well_shaped_resimplified)
    show "height (resimplified y) + 2 \<le> m" using m by (simp add: height_resimplified)
  qed
  then have 3: "simplifySchema m (to_json (resimplified y)) (Data JUndef) None spec'
          = Returns (resimplified y)"
    by (simp add: resimplified_idem)
  from 1 3 show "simplifySchema m (to_json y) (Data JUndef) None spec' = Returns (resimplified y)
          \<and> (simplifySchema m (to_json y) (Data JUndef) None spec' = Returns y) = (resimplified y = y)
          \<and> simplifySchema m (to_json (resimplified y)) (Data JUndef) None spec'
              = Returns (resimplified y)"
    by auto
qed

theorem second_simplification_witness:
  "simplifySchema 5 named_schema (Data JUndef) None JUndef = Returns named_simplified
   \<and> simplifySchema 5 (to_json named_simplified) (Data JUndef) None JUndef = Returns named_resimplified
   \<and> simplifySchema 5 (to_json named_resimplified) (Data JUndef) None JUndef = Returns named_resimplified"
proof -
  have a: "simplifySchema 5 named_schema (Data JUndef) None JUndef = Returns named_simplified"
    by code_simp
  have h: "height named_simplified + 2 \<le> 5" by code_simp
  have r: "resimplified named_simplified = named_resimplified" by code_simp
  from second_simplification[OF a, of JUndef] h r a show ?thesis by auto
qed

text \<open>
  C4 as it is written fails: the first output carries the name \<open>Pet\<close>, recovered from
  the original node's reference; the output read back as a schema has no reference, so
  the second tree has no name.
\<close>

theorem second_simplification_drops_name_counterexample:
  "simplifySchema 3 (JObj [(''type'', JStr ''string'')]) (Data pet_reference) None JUndef
     = Returns pet_simplified
   \<and> simplifySchema 3 (to_json pet_simplified) (Data JUndef) None JUndef = Returns plain_string
   \<and> pet_simplified \<noteq> plain_string"
  by code_simp

section \<open>Properties of the operation filter\<close>

lemma list_ex_tags:
  "list_ex (\<lambda>tag. list_ex (\<lambda>s. tag = JStr s) excludeTags) tags
     \<longleftrightarrow> (\<exists>tag \<in> set tags. \<exists>s \<in> set excludeTags. tag = JStr s)"
  by (simp add: list_ex_iff)

text \<open>
  C1, as the code has it. An operation that reaches the tag check is skipped for tag
  reasons exactly when at least one of its declared tags is in the excluded-tag set,
  and retained when none is; an operation whose \<open>tags\<close> field is absent is treated as
  tagged \<open>default\<close>, so it is skipped exactly when \<open>default\<close> is excluded. (An empty
  \<open>tags\<close> array is a declared one: nothing in it is excluded, the operation is retained.)
\<close>

theorem tag_exclusion:
  assumes "truthy operation"
    and "\<not> (excludeDeprecated \<and> truthy (field ''deprecated'' operation))"
  shows "(\<forall>tags. field ''tags'' operation = JArr tags \<longrightarrow>
            operation_verdict excludeDeprecated excludeTags operation
              = Returns (if \<exists>tag \<in> set tags. \<exists>s \<in> set excludeTags. tag = JStr s
                         then SkippedByTag else Retained))
       \<and> (nullish (field ''tags'' operation) \<longrightarrow>
            operation_verdict excludeDeprecated excludeTags operation
              = Returns (if ''default'' \<in> set excludeTags then SkippedByTag else Retained))"
proof (intro conjI allI impI)
  fix tags assume "field ''tags'' operation = JArr tags"
  with assms show "operation_verdict excludeDeprecated excludeTags operation
              = Returns (if \<exists>tag \<in> set tags. \<exists>s \<in> set excludeTags. tag = JStr s
                         then SkippedByTag else Retained)"
    by (simp add: operation_verdict_def coalesce_def list_ex_tags)
next
  assume "nullish (field ''tags'' operation)"
  with assms show "operation_verdict excludeDeprecated excludeTags operation
              = Returns (if ''default'' \<in> set excludeTags then SkippedByTag else Retained)"
    by (auto simp: operation_verdict_def coalesce_def list_ex_iff)
qed

theorem tag_exclusion_witness:
  "operation_verdict True [''admin''] (JObj [(''tags'', JArr [JStr ''pets'', JStr ''admin''])])
     = Returns SkippedByTag
   \<and> operation_verdict True [''admin''] (JObj [(''tags'', JArr [JStr ''pets''])]) = Returns Retained
   \<and> operation_verdict True [''default''] (JObj [(''summary'', JStr ''List pets'')])
     = Returns SkippedByTag
   \<and> operation_verdict True [''admin''] (JObj [(''summary'', JStr ''List pets'')])
     = Returns Retained
   \<and> operation_verdict True [''default''] (JObj [(''tags'', JArr [])]) = Returns Retained"
proof -
  have t: "\<And>kvs. truthy (JObj kvs)" by simp
  have d: "\<not> (True \<and> truthy (field ''deprecated'' (JObj [(''tags'', JArr [JStr ''pets'', JStr ''admin''])])))"
    "\<not> (True \<and> truthy (field ''deprecated'' (JObj [(''tags'', JArr [JStr ''pets''])])))"
    "\<not> (True \<and> truthy (field ''deprecated'' (JObj [(''summary'', JStr ''List pets'')])))"
    "\<not> (True \<and> truthy (field ''deprecated'' (JObj [(''tags'', JArr [])])))"
    by simp_all
  show ?thesis
    using tag_exclusion[OF t d(1), of "[''admin'']"] tag_exclusion[OF t d(2), of "[''admin'']"]
          tag_exclusion[OF t d(3), of "[''default'']"] tag_exclusion[OF t d(3), of "[''admin'']"]
          tag_exclusion[OF t d(4), of "[''default'']"]
    by simp
qed

text \<open>
  C1 as it is written fails: of the two declared tags only \<open>admin\<close> is excluded, \<open>pets\<close>
  is not, and the operation is skipped.
\<close>

theorem tag_excluded_with_other_tag_counterexample:
  "operation_verdict True [''admin''] (JObj [(''tags'', JArr [JStr ''pets'', JStr ''admin''])])
     = Returns SkippedByTag
   \<and> ''pets'' \<notin> set [''admin'']"
  by code_simp

section \<open>Properties of response extraction\<close>

lemma extractResponse_code:
  "extractResponse fuel responses orig spec code = Returns (Some r) \<Longrightarrow>
   r_statusCode r = code \<and> vtruthy (get code responses)"
  by (auto simp: extractResponse_def obind_Returns Let_def split: if_splits)

lemma extractResponse_skipped:
  "extractResponse fuel responses orig spec code = Returns None \<longleftrightarrow> \<not> vtruthy (get code responses)"
  by (auto simp: extractResponse_def obind_Returns Let_def split: if_splits)

lemma extractResponses_loop_codes:
  "extractResponses_loop fuel responses orig spec codes acc = Returns rs \<Longrightarrow>
   map r_statusCode rs = map r_statusCode acc @ filter (\<lambda>c. vtruthy (get c responses)) codes"
proof (induction codes arbitrary: acc)
  case Nil
  then show ?case by simp
next
  case (Cons code codes)
  from Cons.prems obtain pushed where
    p: "extractResponse fuel responses orig spec code = Returns pushed"
    and rest: "extractResponses_loop fuel responses orig spec codes
                 (case pushed of None \<Rightarrow> acc | Some info \<Rightarrow> acc @ [info]) = Returns rs"
    by (auto simp: obind_Returns)
  show ?case
  proof (cases pushed)
    case None
    with p have "\<not> vtruthy (get code responses)" by (simp add: extractResponse_skipped)
    with Cons.IH[OF rest] None show ?thesis by simp
  next
    case (Some info)
    with p have "r_statusCode info = code" "vtruthy (get code responses)"
      using extractResponse_code by blast+
    with Cons.IH[OF rest] Some show ?thesis by simp
  qed
qed




text \<open>The same for the caller, which resolves a reference of the original table first.\<close>

lemma endpoint_responses_codes:
  assumes "extractEndpointResponses fuel operation originalOperation originalSpec = Returns rs"
  shows "map r_statusCode rs
           = filter (\<lambda>c. vtruthy (get c (field ''responses'' operation))) importantCodes"
proof -
  from assms obtain originalResponses where
    "extractResponses fuel (field ''responses'' operation) originalResponses originalSpec
       = Returns rs"
    by (auto simp: extractEndpointResponses_def obind_Returns)
  then have "extractResponses_loop fuel (field ''responses'' operation) originalResponses
               originalSpec importantCodes [] = Returns rs"
    by (simp add: extractResponses_def split: if_splits)
  from extractResponses_loop_codes[OF this] show ?thesis by simp
qed

section \<open>Properties of request-body extraction\<close>

lemma name_of_reference:
  assumes "field ''$ref'' schema = JStr ref" and "suffix (CHR ''/'' # name) ref"
    and "CHR ''/'' \<notin> set name"
  shows "extractSchemaName schema = Some name"
proof -
  from assms(2) obtain pre where ref: "ref = pre @ CHR ''/'' # name"
    by (auto simp: suffix_def)
  then have ne: "ref \<noteq> []" by simp
  from assms(1) have t: "truthy schema" by (cases schema) auto
  from assms(1) ne have "ref_string schema = Some ref" by (simp add: ref_string_def)
  with t have "extractSchemaName schema = Some (last (js_split CHR ''/'' ref))"
    by (simp add: extractSchemaName.simps)
  moreover have "last (js_split CHR ''/'' ref) = name"
    using assms(3) js_split_not_Nil[of "CHR ''/''" pre]
    by (simp add: ref js_split_append js_split_no_sep)
  ultimately show ?thesis by simp
qed

text \<open>\<open>find\<close> returns the first entry located in the body, and \<open>undefined\<close> when there is none.\<close>

lemma find_body_first:
  "find_body ps = Returns p \<Longrightarrow>
     (p = JUndef \<and> (\<forall>q \<in> set ps. field ''in'' q \<noteq> JStr ''body''))
   \<or> (\<exists>before after. ps = before @ p # after \<and> field ''in'' p = JStr ''body''
          \<and> (\<forall>q \<in> set before. field ''in'' q \<noteq> JStr ''body''))"
proof (induction ps)
  case Nil
  then show ?case by simp
next
  case (Cons a ps)
  show ?case
  proof (cases "field ''in'' a = JStr ''body''")
    case True
    then have "\<not> nullish a" by (cases a) auto
    with True Cons.prems have "p = a" by simp
    with True have "a # ps = [] @ p # ps \<and> field ''in'' p = JStr ''body''
          \<and> (\<forall>q \<in> set []. field ''in'' q \<noteq> JStr ''body'')"
      by simp
    then show ?thesis by blast
  next
    case False
    with Cons.prems have r: "find_body ps = Returns p" by (auto split: if_splits)
    from Cons.IH[OF r] show ?thesis
    proof
      assume "p = JUndef \<and> (\<forall>q \<in> set ps. field ''in'' q \<noteq> JStr ''body'')"
      with False show ?thesis by simp
    next
      assume "\<exists>before after. ps = before @ p # after \<and> field ''in'' p = JStr ''body''
          \<and> (\<forall>q \<in> set before. field ''in'' q \<noteq> JStr ''body'')"
      then obtain before after where
        h: "ps = before @ p # after" "field ''in'' p = JStr ''body''"
           "\<forall>q \<in> set before. field ''in'' q \<noteq> JStr ''body''"
        by blast
      with False have "a # ps = (a # before) @ p # after \<and> field ''in'' p = JStr ''body''
          \<and> (\<forall>q \<in> set (a # before). field ''in'' q \<noteq> JStr ''body'')"
        by simp
      then show ?thesis by blast
    qed
  qed
qed

text \<open>
  What the extractor does for an operation without a modern request-body object whose
  parameter extraction has returned a body parameter with a schema. That parameter is
  the first \<open>in: body\<close> entry of the path-level parameters followed by the
  operation-level ones. Its original counterpart is the first \<open>in: body\<close> entry of the
  parameters of the original operation, and \<open>undefined\<close> when those have none: the
  parameters of the original path item are not read. Once the schema of the body
  parameter has been simplified, the request body is returned: its content type is
  \<open>application/json\<close>, its schema the simplified one, its required flag the one of the
  parameter (\<open>false\<close> when the parameter has none), and its name the one recovered from
  the schema of the original counterpart or else from the schema of the parameter,
  which is \<open>Pet\<close> when the former is a reference that ends in \<open>/Pet\<close>. No call returns
  anything else.
\<close>

lemma legacy_body_param_record:
  assumes "\<not> truthy (field ''requestBody'' operation)"
    and "extractAllParameters stringify to_string operation pathItem = Returns (parameters, bodyParam)"
    and "truthy (field ''schema'' bodyParam)"
    and "original_body_nodes fuel originalOperation originalSpec
           = Returns (originalRequestBody, originalBodyParam)"
  shows "(\<exists>pathParams opParams before after.
            spread_array (coalesce (field ''parameters'' pathItem) (JArr [])) = Returns pathParams
          \<and> spread_array (coalesce (field ''parameters'' operation) (JArr [])) = Returns opParams
          \<and> pathParams @ opParams = before @ bodyParam # after
          \<and> field ''in'' bodyParam = JStr ''body''
          \<and> (\<forall>q \<in> set before. field ''in'' q \<noteq> JStr ''body''))
    \<and> ((originalBodyParam = JUndef
          \<and> (\<forall>q \<in> set (array_items (field ''parameters'' originalOperation)).
                field ''in'' q \<noteq> JStr ''body''))
        \<or> (\<exists>before after.
              field ''parameters'' originalOperation = JArr (before @ originalBodyParam # after)
            \<and> field ''in'' originalBodyParam = JStr ''body''
            \<and> (\<forall>q \<in> set before. field ''in'' q \<noteq> JStr ''body'')))
    \<and> (\<forall>schema.
          simplifySchema fuel (field ''schema'' bodyParam)
            (Data (field ''schema'' originalBodyParam))
            (orelse (extractSchemaName (field ''schema'' originalBodyParam))
                    (extractSchemaName (field ''schema'' bodyParam)))
            originalSpec = Returns schema
          \<longrightarrow> (\<exists>rb. extractEndpointRequestBody fuel operation bodyParam originalOperation
                       originalSpec = Returns (Some rb)
                 \<and> rb_contentType rb = ''application/json''
                 \<and> rb_required rb = coalesce (field ''required'' bodyParam) (JBool False)
                 \<and> rb_schema rb = schema
                 \<and> rb_schemaName rb
                     = orelse (extractSchemaName (field ''schema'' originalBodyParam))
                              (extractSchemaName (field ''schema'' bodyParam))
                 \<and> (\<forall>ref. field ''$ref'' (field ''schema'' originalBodyParam) = JStr ref
                           \<and> suffix ''/Pet'' ref
                         \<longrightarrow> rb_schemaName rb = Some ''Pet'')))
    \<and> (\<forall>result.
          extractEndpointRequestBody fuel operation bodyParam originalOperation originalSpec
            = Returns result
          \<longrightarrow> (\<exists>rb. result = Some rb
                 \<and> rb_contentType rb = ''application/json''
                 \<and> rb_required rb = coalesce (field ''required'' bodyParam) (JBool False)
                 \<and> rb_schemaName rb
                     = orelse (extractSchemaName (field ''schema'' originalBodyParam))
                              (extractSchemaName (field ''schema'' bodyParam))))"
proof -
  let ?name = "orelse (extractSchemaName (field ''schema'' originalBodyParam))
                      (extractSchemaName (field ''schema'' bodyParam))"
  let ?simp = "simplifySchema fuel (field ''schema'' bodyParam)
                 (Data (field ''schema'' originalBodyParam)) ?name originalSpec"
  let ?rb = "\<lambda>s. \<lparr> rb_required = coalesce (field ''required'' bodyParam) (JBool False),
                     rb_contentType = ''application/json'',
                     rb_schema = s,
                     rb_schemaName = ?name,
                     rb_example = field ''example'' (field ''schema'' bodyParam) \<rparr>"
  from assms(3) have tb: "truthy bodyParam" by (cases bodyParam) auto
  then have nb: "bodyParam \<noteq> JUndef" by auto
  from assms(2) obtain pathParams opParams where
    pp: "spread_array (coalesce (field ''parameters'' pathItem) (JArr [])) = Returns pathParams"
    and op: "spread_array (coalesce (field ''parameters'' operation) (JArr [])) = Returns opParams"
    and fb: "find_body (pathParams @ opParams) = Returns bodyParam"
    by (auto simp: extractAllParameters_def obind_Returns Let_def split: if_splits)
  from find_body_first[OF fb] nb obtain before after where
    "pathParams @ opParams = before @ bodyParam # after" "field ''in'' bodyParam = JStr ''body''"
    "\<forall>q \<in> set before. field ''in'' q \<noteq> JStr ''body''"
    by blast
  with pp op have first: "\<exists>pathParams opParams before after.
            spread_array (coalesce (field ''parameters'' pathItem) (JArr [])) = Returns pathParams
          \<and> spread_array (coalesce (field ''parameters'' operation) (JArr [])) = Returns opParams
          \<and> pathParams @ opParams = before @ bodyParam # after
          \<and> field ''in'' bodyParam = JStr ''body''
          \<and> (\<forall>q \<in> set before. field ''in'' q \<noteq> JStr ''body'')"
    by blast
  from assms(4) have obp: "find_body_param (field ''parameters'' originalOperation)
                             = Returns originalBodyParam"
    by (auto simp: original_body_nodes_def obind_Returns)
  have orig: "(originalBodyParam = JUndef
          \<and> (\<forall>q \<in> set (array_items (field ''parameters'' originalOperation)).
                field ''in'' q \<noteq> JStr ''body''))
        \<or> (\<exists>before after.
              field ''parameters'' originalOperation = JArr (before @ originalBodyParam # after)
            \<and> field ''in'' originalBodyParam = JStr ''body''
            \<and> (\<forall>q \<in> set before. field ''in'' q \<noteq> JStr ''body''))"
  proof (cases "field ''parameters'' originalOperation")
    case (JArr ps)
    with obp have "find_body ps = Returns originalBodyParam"
      by (simp add: find_body_param_def)
    from find_body_first[OF this] JArr show ?thesis by (auto simp: array_items_def)
  qed (use obp in \<open>auto simp: find_body_param_def array_items_def\<close>)
  have run: "extractEndpointRequestBody fuel operation bodyParam originalOperation originalSpec
               = obind ?simp (\<lambda>s. Returns (Some (?rb s)))"
    using assms(1,3,4) tb
    by (simp add: extractEndpointRequestBody_def extractSwagger2BodyParam_def Let_def)
  have nm: "\<forall>ref. field ''$ref'' (field ''schema'' originalBodyParam) = JStr ref
                  \<and> suffix ''/Pet'' ref \<longrightarrow> ?name = Some ''Pet''"
  proof (intro allI impI, elim conjE)
    fix ref
    assume h: "field ''$ref'' (field ''schema'' originalBodyParam) = JStr ref" "suffix ''/Pet'' ref"
    then have "extractSchemaName (field ''schema'' originalBodyParam) = Some ''Pet''"
      by (intro name_of_reference[of _ ref]) simp_all
    then show "?name = Some ''Pet''" by simp
  qed
  have produces: "\<forall>schema. ?simp = Returns schema
          \<longrightarrow> (\<exists>rb. extractEndpointRequestBody fuel operation bodyParam originalOperation
                       originalSpec = Returns (Some rb)
                 \<and> rb_contentType rb = ''application/json''
                 \<and> rb_required rb = coalesce (field ''required'' bodyParam) (JBool False)
                 \<and> rb_schema rb = schema
                 \<and> rb_schemaName rb = ?name
                 \<and> (\<forall>ref. field ''$ref'' (field ''schema'' originalBodyParam) = JStr ref
                           \<and> suffix ''/Pet'' ref
                         \<longrightarrow> rb_schemaName rb = Some ''Pet''))"
  proof (intro allI impI)
    fix schema assume "?simp = Returns schema"
    then have "extractEndpointRequestBody fuel operation bodyParam originalOperation originalSpec
                 = Returns (Some (?rb schema))"
      by (simp add: run)
    with nm show "\<exists>rb. extractEndpointRequestBody fuel operation bodyParam originalOperation
                       originalSpec = Returns (Some rb)
                 \<and> rb_contentType rb = ''application/json''
                 \<and> rb_required rb = coalesce (field ''required'' bodyParam) (JBool False)
                 \<and> rb_schema rb = schema
                 \<and> rb_schemaName rb = ?name
                 \<and> (\<forall>ref. field ''$ref'' (field ''schema'' originalBodyParam) = JStr ref
                           \<and> suffix ''/Pet'' ref
                         \<longrightarrow> rb_schemaName rb = Some ''Pet'')"
      by (intro exI[of _ "?rb schema"]) simp
  qed
  have returned: "\<forall>result.
          extractEndpointRequestBody fuel operation bodyParam originalOperation originalSpec
            = Returns result
          \<longrightarrow> (\<exists>rb. result = Some rb
                 \<and> rb_contentType rb = ''application/json''
                 \<and> rb_required rb = coalesce (field ''required'' bodyParam) (JBool False)
                 \<and> rb_schemaName rb = ?name)"
  proof (intro allI impI)
    fix result
    assume "extractEndpointRequestBody fuel operation bodyParam originalOperation originalSpec
              = Returns result"
    then obtain s where "result = Some (?rb s)"
      by (auto simp: run obind_Returns)
    then show "\<exists>rb. result = Some rb
                 \<and> rb_contentType rb = ''application/json''
                 \<and> rb_required rb = coalesce (field ''required'' bodyParam) (JBool False)
                 \<and> rb_schemaName rb = ?name"
      by (intro exI[of _ "?rb s"]) simp
  qed
  from first orig produces returned show ?thesis by blast
qed

text \<open>The operation of the example declares its body parameter itself, and is named.\<close>

lemma legacy_body_param_record_example:
  "extractAllParameters (\<lambda>v. []) (\<lambda>v. []) legacy_operation legacy_path_item
     = Returns ([\<lparr> p_name = JStr ''id'', p_in = JStr ''path'', p_required = JBool True,
                     p_type = JStr ''unknown'', p_description = JUndef, p_example = JUndef \<rparr>],
                legacy_body_param)
   \<and> extractEndpointRequestBody 5 legacy_operation legacy_body_param
         legacy_original_operation legacy_original_spec
     = Returns (Some legacy_request_body)
   \<and> rb_contentType legacy_request_body = ''application/json''
   \<and> rb_required legacy_request_body = field ''required'' legacy_body_param
   \<and> rb_schemaName legacy_request_body = Some ''Pet''"
  by code_simp

text \<open>
  C7. For an operation without a modern request-body object, a parameter located in
  the body gives the request body: the content type \<open>application/json\<close>, the required
  flag of the parameter and, when the schema of the original parameter is a reference
  that ends in \<open>Pet\<close>, the name \<open>Pet\<close>; and that for a parameter declared at path level
  as for one declared by the operation. The extractor does so for a parameter of the
  operation (the lemma above), and does not recover the name of a path-level one.
  \<open>extractAllParameters\<close> finds the parameter among the path-level parameters of the
  processed path item; its original counterpart is searched among the parameters of the
  original operation only, which has none; so the reference \<open>#/definitions/Pet\<close> of the
  original path-level parameter is never read, and the request body is returned with
  the content type \<open>application/json\<close> and the required flag of the parameter, and
  without a name.
\<close>

theorem path_level_body_param_loses_name:
  "extractAllParameters (\<lambda>v. []) (\<lambda>v. []) (field ''post'' path_level_path_item)
       path_level_path_item
     = Returns ([], legacy_body_param)
   \<and> find_body (array_items (field ''parameters'' path_level_original_path_item))
     = Returns path_level_original_param
   \<and> field ''$ref'' (field ''schema'' path_level_original_param) = JStr ''#/definitions/Pet''
   \<and> original_body_nodes 5 (field ''post'' path_level_original_path_item) legacy_original_spec
     = Returns (Data JUndef, JUndef)
   \<and> extractEndpointRequestBody 5 (field ''post'' path_level_path_item) legacy_body_param
         (field ''post'' path_level_original_path_item) legacy_original_spec
     = Returns (Some \<lparr> rb_required = JBool True, rb_contentType = ''application/json'',
                       rb_schema = Simplified (JStr ''object'') None JUndef JUndef JUndef
                                     (Some []) (Some []) None,
                       rb_schemaName = None, rb_example = JUndef \<rparr>)"
  by code_simp

text \<open>
  C8. For an operation that declares a modern request-body object, the request body is
  what \<open>extractRequestBody\<close> makes of that object: the body parameter passed in plays no
  part. When the content map has a (truthy) entry for \<open>application/json\<close>, the record is
  made from that entry, with that content type. When it has none, the record is made
  from the first entry of the content map, with the key of that entry as its content
  type. (The first entry of the list is the first one JavaScript enumerates when no key
  of the map is index-like, as no content type is.)
  In both cases the record is returned once the original operation has been looked up
  and the schema of the entry has been simplified. Every record returned has the
  content type \<open>application/json\<close> or the first key, and none is returned when the
  content map is absent or has no keys.
\<close>

theorem modern_request_body_alone:
  assumes "truthy (field ''requestBody'' operation)"
  shows "extractEndpointRequestBody fuel operation bodyParam originalOperation originalSpec
           = extractEndpointRequestBody fuel operation JUndef originalOperation originalSpec
    \<and> (\<forall>originalRequestBody originalBodyParam.
          original_body_nodes fuel originalOperation originalSpec
            = Returns (originalRequestBody, originalBodyParam)
          \<longrightarrow> extractEndpointRequestBody fuel operation bodyParam originalOperation originalSpec
                = extractRequestBody fuel (field ''requestBody'' operation)
                    originalRequestBody originalSpec)
    \<and> (\<forall>kvs media originalRequestBody originalBodyParam schema.
          field ''content'' (field ''requestBody'' operation) = JObj kvs
          \<and> map_of kvs ''application/json'' = Some media \<and> truthy media
          \<and> original_body_nodes fuel originalOperation originalSpec
              = Returns (originalRequestBody, originalBodyParam)
          \<and> simplifySchema fuel (field ''schema'' media)
                (Data (vfield ''schema''
                         (get ''application/json'' (vfield ''content'' originalRequestBody))))
                (orelse
                  (extractSchemaName
                    (vfield ''schema''
                       (get ''application/json'' (vfield ''content'' originalRequestBody))))
                  (extractSchemaName (field ''schema'' media)))
                originalSpec = Returns schema
          \<longrightarrow> (\<exists>rb. extractEndpointRequestBody fuel operation bodyParam originalOperation
                       originalSpec = Returns (Some rb)
                 \<and> rb_contentType rb = ''application/json''
                 \<and> rb_schema rb = schema
                 \<and> rb_required rb
                     = coalesce (field ''required'' (field ''requestBody'' operation)) (JBool False)))
    \<and> (\<forall>contentType media rest originalRequestBody originalBodyParam schema.
          field ''content'' (field ''requestBody'' operation) = JObj ((contentType, media) # rest)
          \<and> \<not> truthy (field ''application/json'' (JObj ((contentType, media) # rest)))
          \<and> \<not> list_ex index_like (contentType # map fst rest)
          \<and> contentType \<noteq> []
          \<and> original_body_nodes fuel originalOperation originalSpec
              = Returns (originalRequestBody, originalBodyParam)
          \<and> simplifySchema fuel (field ''schema'' media)
                (Data (vfield ''schema''
                         (get contentType (vfield ''content'' originalRequestBody))))
                (orelse
                  (extractSchemaName
                    (vfield ''schema''
                       (get contentType (vfield ''content'' originalRequestBody))))
                  (extractSchemaName (field ''schema'' media)))
                originalSpec = Returns schema
          \<longrightarrow> (\<exists>rb. extractEndpointRequestBody fuel operation bodyParam originalOperation
                       originalSpec = Returns (Some rb)
                 \<and> rb_contentType rb = contentType
                 \<and> rb_schema rb = schema
                 \<and> rb_required rb
                     = coalesce (field ''required'' (field ''requestBody'' operation)) (JBool False)))
    \<and> (\<forall>rb. extractEndpointRequestBody fuel operation bodyParam originalOperation originalSpec
               = Returns (Some rb)
          \<longrightarrow> (truthy (field ''application/json'' (field ''content'' (field ''requestBody'' operation)))
                 \<longrightarrow> rb_contentType rb = ''application/json'')
              \<and> (\<not> truthy (field ''application/json'' (field ''content'' (field ''requestBody'' operation)))
                  \<and> \<not> list_ex index_like
                          (map fst (own_entries (field ''content'' (field ''requestBody'' operation))))
                 \<longrightarrow> (\<exists>kv rest. own_entries (field ''content'' (field ''requestBody'' operation))
                                    = kv # rest
                                \<and> rb_contentType rb = fst kv)))
    \<and> (\<not> truthy (field ''content'' (field ''requestBody'' operation))
        \<or> own_entries (field ''content'' (field ''requestBody'' operation)) = []
        \<longrightarrow> (\<forall>originalBody. extractRequestBody fuel (field ''requestBody'' operation)
                               originalBody originalSpec = Returns None)
            \<and> (\<forall>rb. extractEndpointRequestBody fuel operation bodyParam originalOperation
                        originalSpec \<noteq> Returns (Some rb)))"
proof -
  let ?body = "field ''requestBody'' operation"
  let ?content = "field ''content'' ?body"
  have ind: "\<And>bp. extractEndpointRequestBody fuel operation bp originalOperation originalSpec
      = obind (original_body_nodes fuel originalOperation originalSpec)
          (\<lambda>(originalRequestBody, originalBodyParam).
             extractRequestBody fuel ?body originalRequestBody originalSpec)"
    using assms by (simp add: extractEndpointRequestBody_def)
  have a: "extractEndpointRequestBody fuel operation bodyParam originalOperation originalSpec
           = extractEndpointRequestBody fuel operation JUndef originalOperation originalSpec"
    by (simp only: ind)
  have b: "\<forall>originalRequestBody originalBodyParam.
          original_body_nodes fuel originalOperation originalSpec
            = Returns (originalRequestBody, originalBodyParam)
          \<longrightarrow> extractEndpointRequestBody fuel operation bodyParam originalOperation originalSpec
                = extractRequestBody fuel ?body originalRequestBody originalSpec"
    by (simp add: ind)
  have json: "\<forall>kvs media originalRequestBody originalBodyParam schema.
          ?content = JObj kvs
          \<and> map_of kvs ''application/json'' = Some media \<and> truthy media
          \<and> original_body_nodes fuel originalOperation originalSpec
              = Returns (originalRequestBody, originalBodyParam)
          \<and> simplifySchema fuel (field ''schema'' media)
                (Data (vfield ''schema''
                         (get ''application/json'' (vfield ''content'' originalRequestBody))))
                (orelse
                  (extractSchemaName
                    (vfield ''schema''
                       (get ''application/json'' (vfield ''content'' originalRequestBody))))
                  (extractSchemaName (field ''schema'' media)))
                originalSpec = Returns schema
          \<longrightarrow> (\<exists>rb. extractEndpointRequestBody fuel operation bodyParam originalOperation
                       originalSpec = Returns (Some rb)
                 \<and> rb_contentType rb = ''application/json''
                 \<and> rb_schema rb = schema
                 \<and> rb_required rb = coalesce (field ''required'' ?body) (JBool False))"
  proof (intro allI impI, elim conjE)
    fix kvs media originalRequestBody originalBodyParam schema
    assume h: "?content = JObj kvs" "map_of kvs ''application/json'' = Some media" "truthy media"
      "original_body_nodes fuel originalOperation originalSpec
         = Returns (originalRequestBody, originalBodyParam)"
      "simplifySchema fuel (field ''schema'' media)
                (Data (vfield ''schema''
                         (get ''application/json'' (vfield ''content'' originalRequestBody))))
                (orelse
                  (extractSchemaName
                    (vfield ''schema''
                       (get ''application/json'' (vfield ''content'' originalRequestBody))))
                  (extractSchemaName (field ''schema'' media)))
                originalSpec = Returns schema"
    have g: "get ''application/json'' ?content = Data media"
      using h(1,2) by (simp add: get_object(1))
    have c: "chosen_content_type ?content = Some ''application/json''"
      using h(1,2,3) by (simp add: chosen_content_type_def)
    show "\<exists>rb. extractEndpointRequestBody fuel operation bodyParam originalOperation
                       originalSpec = Returns (Some rb)
                 \<and> rb_contentType rb = ''application/json''
                 \<and> rb_schema rb = schema
                 \<and> rb_required rb = coalesce (field ''required'' ?body) (JBool False)"
      using h(1,4,5) g c by (simp add: ind extractRequestBody_def Let_def)
  qed
  have first: "\<forall>contentType media rest originalRequestBody originalBodyParam schema.
          ?content = JObj ((contentType, media) # rest)
          \<and> \<not> truthy (field ''application/json'' (JObj ((contentType, media) # rest)))
          \<and> \<not> list_ex index_like (contentType # map fst rest)
          \<and> contentType \<noteq> []
          \<and> original_body_nodes fuel originalOperation originalSpec
              = Returns (originalRequestBody, originalBodyParam)
          \<and> simplifySchema fuel (field ''schema'' media)
                (Data (vfield ''schema''
                         (get contentType (vfield ''content'' originalRequestBody))))
                (orelse
                  (extractSchemaName
                    (vfield ''schema''
                       (get contentType (vfield ''content'' originalRequestBody))))
                  (extractSchemaName (field ''schema'' media)))
                originalSpec = Returns schema
          \<longrightarrow> (\<exists>rb. extractEndpointRequestBody fuel operation bodyParam originalOperation
                       originalSpec = Returns (Some rb)
                 \<and> rb_contentType rb = contentType
                 \<and> rb_schema rb = schema
                 \<and> rb_required rb = coalesce (field ''required'' ?body) (JBool False))"
  proof (intro allI impI, elim conjE)
    fix contentType media rest originalRequestBody originalBodyParam schema
    assume h: "?content = JObj ((contentType, media) # rest)"
      "\<not> truthy (field ''application/json'' (JObj ((contentType, media) # rest)))"
      "\<not> list_ex index_like (contentType # map fst rest)"
      "contentType \<noteq> []"
      "original_body_nodes fuel originalOperation originalSpec
         = Returns (originalRequestBody, originalBodyParam)"
      "simplifySchema fuel (field ''schema'' media)
                (Data (vfield ''schema''
                         (get contentType (vfield ''content'' originalRequestBody))))
                (orelse
                  (extractSchemaName
                    (vfield ''schema''
                       (get contentType (vfield ''content'' originalRequestBody))))
                  (extractSchemaName (field ''schema'' media)))
                originalSpec = Returns schema"
    have g: "get contentType ?content = Data media"
      using h(1) by (simp add: get_object(1))
    have c: "chosen_content_type ?content = Some contentType"
      using h(1,2) by (simp add: chosen_content_type_def first_key_def)
    show "\<exists>rb. extractEndpointRequestBody fuel operation bodyParam originalOperation
                       originalSpec = Returns (Some rb)
                 \<and> rb_contentType rb = contentType
                 \<and> rb_schema rb = schema
                 \<and> rb_required rb = coalesce (field ''required'' ?body) (JBool False)"
      using h(1,4,5,6) g c by (simp add: ind extractRequestBody_def Let_def)
  qed
  have ct: "\<And>ob rb. extractRequestBody fuel ?body ob originalSpec = Returns (Some rb) \<Longrightarrow>
              (truthy (field ''application/json'' ?content) \<longrightarrow> rb_contentType rb = ''application/json'')
              \<and> (\<not> truthy (field ''application/json'' ?content)
                  \<and> \<not> list_ex index_like (map fst (own_entries ?content))
                    \<longrightarrow> (\<exists>kv rest. own_entries ?content = kv # rest \<and> rb_contentType rb = fst kv))"
    by (auto simp: extractRequestBody_def chosen_content_type_def first_key_def obind_Returns Let_def
             split: if_splits option.splits list.splits)
  have c: "\<forall>rb. extractEndpointRequestBody fuel operation bodyParam originalOperation originalSpec
               = Returns (Some rb)
          \<longrightarrow> (truthy (field ''application/json'' ?content) \<longrightarrow> rb_contentType rb = ''application/json'')
              \<and> (\<not> truthy (field ''application/json'' ?content)
                  \<and> \<not> list_ex index_like (map fst (own_entries ?content))
                    \<longrightarrow> (\<exists>kv rest. own_entries ?content = kv # rest \<and> rb_contentType rb = fst kv))"
  proof (intro allI impI)
    fix rb
    assume "extractEndpointRequestBody fuel operation bodyParam originalOperation originalSpec
               = Returns (Some rb)"
    then obtain ob where "extractRequestBody fuel ?body ob originalSpec = Returns (Some rb)"
      by (auto simp: ind obind_Returns)
    then show "(truthy (field ''application/json'' ?content) \<longrightarrow> rb_contentType rb = ''application/json'')
              \<and> (\<not> truthy (field ''application/json'' ?content)
                  \<and> \<not> list_ex index_like (map fst (own_entries ?content))
                    \<longrightarrow> (\<exists>kv rest. own_entries ?content = kv # rest \<and> rb_contentType rb = fst kv))"
      by (rule ct)
  qed
  have none: "\<not> truthy ?content \<or> own_entries ?content = [] \<Longrightarrow>
               extractRequestBody fuel ?body ob originalSpec = Returns None" for ob
  proof -
    assume h: "\<not> truthy ?content \<or> own_entries ?content = []"
    show "extractRequestBody fuel ?body ob originalSpec = Returns None"
    proof (cases "truthy ?content")
      case False
      then show ?thesis by (simp add: extractRequestBody_def Let_def)
    next
      case True
      with h have e: "own_entries ?content = []" by simp
      then have "field ''application/json'' ?content = JUndef"
        by (cases ?content) simp_all
      with e show ?thesis
        by (simp add: extractRequestBody_def chosen_content_type_def first_key_def Let_def)
    qed
  qed
  have d: "\<not> truthy ?content \<or> own_entries ?content = []
        \<longrightarrow> (\<forall>originalBody. extractRequestBody fuel ?body originalBody originalSpec = Returns None)
            \<and> (\<forall>rb. extractEndpointRequestBody fuel operation bodyParam originalOperation
                        originalSpec \<noteq> Returns (Some rb))"
  proof (intro impI conjI allI)
    fix originalBody
    assume "\<not> truthy ?content \<or> own_entries ?content = []"
    then show "extractRequestBody fuel ?body originalBody originalSpec = Returns None"
      by (rule none)
  next
    fix rb
    assume h: "\<not> truthy ?content \<or> own_entries ?content = []"
    show "extractEndpointRequestBody fuel operation bodyParam originalOperation originalSpec
            \<noteq> Returns (Some rb)"
      using none[OF h] by (auto simp: ind obind_Returns)
  qed
  from a b json first c d show ?thesis by blast
qed

theorem modern_request_body_alone_witness:
  "extractEndpointRequestBody 3 modern_operation legacy_body_param JUndef JUndef
     = Returns (Some modern_request_body)
   \<and> extractEndpointRequestBody 3 modern_operation JUndef JUndef JUndef
     = Returns (Some modern_request_body)
   \<and> rb_contentType modern_request_body = ''application/json''
   \<and> extractEndpointRequestBody 3 xml_operation JUndef JUndef JUndef
     = Returns (Some xml_request_body)
   \<and> rb_contentType xml_request_body = ''application/xml''
   \<and> extractEndpointRequestBody 3 empty_body_operation legacy_body_param JUndef JUndef
     = Returns None"
proof -
  let ?plain = "JObj [(''schema'', JObj [(''type'', JStr ''string'')])]"
  let ?json = "JObj [(''schema'', JObj [(''type'', JStr ''object'')])]"
  have m: "truthy (field ''requestBody'' modern_operation)"
    and x: "truthy (field ''requestBody'' xml_operation)"
    and e: "truthy (field ''requestBody'' empty_body_operation)"
    by code_simp+
  have o: "original_body_nodes 3 JUndef JUndef = Returns (Data JUndef, JUndef)" by code_simp
  have m1: "extractEndpointRequestBody 3 modern_operation JUndef JUndef JUndef
              = Returns (Some modern_request_body)" by code_simp
  have mc: "field ''content'' (field ''requestBody'' modern_operation)
              = JObj [(''text/plain'', ?plain), (''application/json'', ?json)]"
    "map_of [(''text/plain'', ?plain), (''application/json'', ?json)] ''application/json''
       = Some ?json"
    "truthy ?json"
    by code_simp+
  have ms: "simplifySchema 3 (field ''schema'' ?json)
                (Data (vfield ''schema'' (get ''application/json'' (vfield ''content'' (Data JUndef)))))
                (orelse
                  (extractSchemaName
                    (vfield ''schema'' (get ''application/json'' (vfield ''content'' (Data JUndef)))))
                  (extractSchemaName (field ''schema'' ?json)))
                JUndef
              = Returns (Simplified (JStr ''object'') None JUndef JUndef JUndef (Some []) (Some [])
                           None)"
    by code_simp
  note M = modern_request_body_alone[OF m, of 3 legacy_body_param JUndef JUndef]
  from M m1 have w1: "extractEndpointRequestBody 3 modern_operation legacy_body_param JUndef JUndef
              = Returns (Some modern_request_body)" by simp
  from M mc o ms obtain rb where
    "extractEndpointRequestBody 3 modern_operation legacy_body_param JUndef JUndef
       = Returns (Some rb)" "rb_contentType rb = ''application/json''"
    by blast
  with w1 have w2: "rb_contentType modern_request_body = ''application/json''" by simp
  have xc: "field ''content'' (field ''requestBody'' xml_operation)
              = JObj ((''application/xml'', ?plain) # [(''text/plain'', JObj [])])"
    "\<not> truthy (field ''application/json''
                 (JObj ((''application/xml'', ?plain) # [(''text/plain'', JObj [])])))"
    "\<not> list_ex index_like (''application/xml'' # map fst [(''text/plain'', JObj [])])"
    "''application/xml'' \<noteq> []"
    by code_simp+
  have xs: "simplifySchema 3 (field ''schema'' ?plain)
                (Data (vfield ''schema'' (get ''application/xml'' (vfield ''content'' (Data JUndef)))))
                (orelse
                  (extractSchemaName
                    (vfield ''schema'' (get ''application/xml'' (vfield ''content'' (Data JUndef)))))
                  (extractSchemaName (field ''schema'' ?plain)))
                JUndef
              = Returns plain_string"
    by code_simp
  have x1: "extractEndpointRequestBody 3 xml_operation JUndef JUndef JUndef
              = Returns (Some xml_request_body)" by code_simp
  note X = modern_request_body_alone[OF x, of 3 JUndef JUndef JUndef]
  from X xc o xs obtain rb' where
    "extractEndpointRequestBody 3 xml_operation JUndef JUndef JUndef = Returns (Some rb')"
    "rb_contentType rb' = ''application/xml''"
    by blast
  with x1 have w3: "rb_contentType xml_request_body = ''application/xml''" by simp
  have e1: "own_entries (field ''content'' (field ''requestBody'' empty_body_operation)) = []"
    by code_simp
  note T = modern_request_body_alone[OF e, of 3 legacy_body_param JUndef JUndef]
  from T o have "extractEndpointRequestBody 3 empty_body_operation legacy_body_param JUndef JUndef
      = extractRequestBody 3 (field ''requestBody'' empty_body_operation) (Data JUndef) JUndef"
    by blast
  moreover from T e1
  have "extractRequestBody 3 (field ''requestBody'' empty_body_operation) (Data JUndef) JUndef
          = Returns None"
    by blast
  ultimately
  have w4: "extractEndpointRequestBody 3 empty_body_operation legacy_body_param JUndef JUndef
              = Returns None" by simp
  from w1 m1 w2 x1 w3 w4 show ?thesis by blast
qed

end
